theory Spec2Isabelle
  imports Main "HOL-Library.Multiset"
begin

section \<open>JavaScript values used by the labelling code\<close>

text \<open>
  Strings are lists of 8-bit characters, the code units U+0000 to U+00FF.  The string
  operations below are the ones the source calls: \<^verbatim>\<open>split(":")\<close>, \<^verbatim>\<open>trim()\<close>,
  \<^verbatim>\<open>toLowerCase()\<close>, \<^verbatim>\<open>includes()\<close>, \<^verbatim>\<open>replace(/"/g, '""')\<close> and \<^verbatim>\<open>join()\<close>.
  White space and letter case are those of that range: \<^verbatim>\<open>trim()\<close> strips the six ASCII
  blanks and the no-break space U+00A0; \<^verbatim>\<open>toLowerCase()\<close> maps A to Z and U+00C0 to
  U+00DE (without the multiplication sign U+00D7) to the letter 32 places on.
\<close>

definition dquote :: char where
  "dquote = CHR 0x22"

definition newline :: char where
  "newline = CHR 0x0A"

definition isWhiteSpace :: "char \<Rightarrow> bool" where
  "isWhiteSpace c = (c \<in> set [CHR '' '', CHR 0x09, CHR 0x0A, CHR 0x0B, CHR 0x0C, CHR 0x0D, CHR 0xA0])"

definition trim :: "string \<Rightarrow> string" where
  "trim s = rev (dropWhile isWhiteSpace (rev (dropWhile isWhiteSpace s)))"

definition lowerChar :: "char \<Rightarrow> char" where
  "lowerChar c =
     (let n = (of_char c :: nat) in
      if (65 \<le> n \<and> n \<le> 90) \<or> (192 \<le> n \<and> n \<le> 222 \<and> n \<noteq> 215) then char_of (n + 32) else c)"

definition toLowerCase :: "string \<Rightarrow> string" where
  "toLowerCase s = map lowerChar s"

fun split_on :: "char \<Rightarrow> string \<Rightarrow> string list" where
  "split_on d [] = [[]]"
| "split_on d (c # cs) =
     (if c = d then [] # split_on d cs
      else (let ps = split_on d cs in (c # hd ps) # tl ps))"

fun startsWith :: "string \<Rightarrow> string \<Rightarrow> bool" where
  "startsWith s [] = True"
| "startsWith [] (p # ps) = False"
| "startsWith (c # cs) (p # ps) = (c = p \<and> startsWith cs ps)"

fun str_includes :: "string \<Rightarrow> string \<Rightarrow> bool" where
  "str_includes [] t = (t = [])"
| "str_includes (c # cs) t = (startsWith (c # cs) t \<or> str_includes cs t)"

fun join :: "string \<Rightarrow> string list \<Rightarrow> string" where
  "join sep [] = []"
| "join sep [x] = x"
| "join sep (x # y # ys) = x @ sep @ join sep (y # ys)"

text \<open>
  Numbers are modelled as integers (confidence scores are asked for as integers from 0 to
  100); \<open>show_int\<close> is their decimal rendering, which is what string conversion gives
  for an integer that a double holds exactly, so up to \<open>2 ^ 53\<close> in magnitude.  Numbers
  with a fraction, and integers beyond that bound, are outside the model.
\<close>

definition digit_char :: "nat \<Rightarrow> char" where
  "digit_char n = ''0123456789'' ! n"

function show_nat :: "nat \<Rightarrow> string" where
  "show_nat n = (if n < 10 then [digit_char n] else show_nat (n div 10) @ [digit_char (n mod 10)])"
  by pat_completeness auto
termination
  by (relation "measure id") auto

declare show_nat.simps [simp del]

definition show_int :: "int \<Rightarrow> string" where
  "show_int i = (if i < 0 then CHR ''-'' # show_nat (nat (- i)) else show_nat (nat i))"

text \<open>
  A parsed JSON value.  An object is the list of its properties; reading a property that
  is absent gives \<^verbatim>\<open>undefined\<close>, modelled as \<open>None\<close>.
\<close>

datatype json =
    JNull
  | JBool bool
  | JNum int
  | JStr string
  | JArr "json list"
  | JObj "(string \<times> json) list"

type_synonym jsvalue = "json option"

fun truthy :: "jsvalue \<Rightarrow> bool" where
  "truthy None = False"
| "truthy (Some JNull) = False"
| "truthy (Some (JBool b)) = b"
| "truthy (Some (JNum n)) = (n \<noteq> 0)"
| "truthy (Some (JStr s)) = (s \<noteq> [])"
| "truthy (Some (JArr xs)) = True"
| "truthy (Some (JObj fs)) = True"

fun getProp :: "json \<Rightarrow> string \<Rightarrow> jsvalue" where
  "getProp (JObj fs) k = map_of fs k"
| "getProp v k = None"

fun jsToString :: "json \<Rightarrow> string" where
  "jsToString JNull = ''null''"
| "jsToString (JBool b) = (if b then ''true'' else ''false'')"
| "jsToString (JNum n) = show_int n"
| "jsToString (JStr s) = s"
| "jsToString (JArr xs) =
     join '','' (map (\<lambda>x. case x of JNull \<Rightarrow> [] | _ \<Rightarrow> jsToString x) xs)"
| "jsToString (JObj fs) = ''[object Object]''"

definition templateString :: "jsvalue \<Rightarrow> string" where
  "templateString v = (case v of None \<Rightarrow> ''undefined'' | Some j \<Rightarrow> jsToString j)"

text \<open>
  A thrown value: an \<^verbatim>\<open>Error\<close> instance with its message, or anything else.  The catch
  blocks render it with \<^verbatim>\<open>error instanceof Error ? error.message : "Unknown error"\<close>.
\<close>

datatype thrown = Error string | NonError

definition errorMessage :: "thrown \<Rightarrow> string" where
  "errorMessage e = (case e of Error m \<Rightarrow> m | NonError \<Rightarrow> ''Unknown error'')"


section \<open>The data model (labelingAgent.ts)\<close>

record DataItem =
  item_text :: string
  item_id :: string

record ApiLabelingIntent =
  apiDatasetDescription :: string
  apiLabelCategories :: "string list"
  apiGuidelines :: string

text \<open>
  \<open>needsLLMReasoning\<close> is the extra flag the client attaches to synthesized results;
  a result without it has the flag \<open>False\<close>.
\<close>

record LabelResult =
  itemId :: string
  label :: string
  confidence :: int
  reasoning :: string
  uncertaintyExplanation :: jsvalue
  needsReview :: bool
  needsLLMReasoning :: bool

record BatchLabelingResult =
  results :: "LabelResult list"
  completedAt :: string
  processingTimeMs :: int
  totalItems :: nat
  reviewNeeded :: nat

text \<open>The clock readings of one run: \<^verbatim>\<open>Date.now()\<close> at both ends and the ISO time stamp.\<close>

record clock =
  startMs :: int
  endMs :: int
  endIso :: string


section \<open>The inference call\<close>

text \<open>
  What one call of \<^verbatim>\<open>env.AI.run\<close> followed by the pattern match and \<^verbatim>\<open>JSON.parse\<close>
  comes to: the call (or reading the response text) throws; the text holds no match for
  the pattern; the match is not JSON; or the match parses.  A match of
  \<^verbatim>\<open>/\{[\s\S]*\}/\<close> that parses is an object, a match of \<^verbatim>\<open>/\[[\s\S]*\]/\<close> that parses
  is an array.  The environment gives the outcome of the call with a given number, for
  either path; prompts are not modelled, so the outcome is arbitrary.
\<close>

datatype 'a ai_outcome =
    Rejected thrown
  | NoJsonMatch
  | JsonSyntaxError string
  | Parsed 'a

record env =
  run_item :: "nat \<Rightarrow> (string \<times> json) list ai_outcome"
  run_batch :: "nat \<Rightarrow> json list ai_outcome"


section \<open>Label repair (labelingAgent.ts, lines 65-81 and 186-203)\<close>

text \<open>
  Both functions look the categories up through the identifier \<^verbatim>\<open>labelCategories\<close>.
  The module declares and imports no such variable (the parameters are \<^verbatim>\<open>item\<close> or
  \<^verbatim>\<open>items\<close>, \<^verbatim>\<open>intent\<close>, \<^verbatim>\<open>env\<close>, \<^verbatim>\<open>batchSize\<close>; the list is \<^verbatim>\<open>intent.labelCategories\<close>),
  so evaluating it throws a ReferenceError.
\<close>

definition free_labelCategories :: "thrown + string list" where
  "free_labelCategories = Inl (Error ''labelCategories is not defined'')"

definition repairLabel :: "string \<Rightarrow> thrown + string" where
  "repairLabel lbl =
     (let labelParts = map trim (split_on CHR '':'' lbl) in
      if length labelParts = 2 \<and> labelParts ! 0 = labelParts ! 1 then
        (case free_labelCategories of
           Inl e \<Rightarrow> Inl e
         | Inr cats \<Rightarrow>
             (case find (\<lambda>cat. str_includes (toLowerCase cat) (toLowerCase (labelParts ! 0))) cats of
                None \<Rightarrow> Inr lbl
              | Some matchingCategory \<Rightarrow>
                  if matchingCategory = [] then Inr lbl
                  else Inr (trim (hd (split_on CHR '':'' matchingCategory)) @ '': '' @ labelParts ! 1)))
      else Inr lbl)"

text \<open>\<^verbatim>\<open>let label = result.label || ""; label.split(":")\<close>: a truthy value that is not a string has no \<^verbatim>\<open>split\<close>.\<close>

definition labelOf :: "jsvalue \<Rightarrow> thrown + string" where
  "labelOf v =
     (if truthy v then
        (case v of Some (JStr s) \<Rightarrow> Inr s | _ \<Rightarrow> Inl (Error ''label.split is not a function''))
      else Inr [])"

definition defaultReasoning :: "jsvalue \<Rightarrow> string" where
  "defaultReasoning lbl =
     ''This item was classified as '' @ [dquote] @ templateString lbl @ [dquote] @
     '' based on the content and the provided labeling guidelines.''"

text \<open>\<^verbatim>\<open>if (!reasoning || reasoning.trim().length === 0) reasoning = `...`\<close>\<close>

definition reasoningOf :: "jsvalue \<Rightarrow> jsvalue \<Rightarrow> thrown + string" where
  "reasoningOf r lbl =
     (if \<not> truthy r then Inr (defaultReasoning lbl)
      else (case r of
              Some (JStr s) \<Rightarrow> if length (trim s) = 0 then Inr (defaultReasoning lbl) else Inr s
            | _ \<Rightarrow> Inl (Error ''reasoning.trim is not a function'')))"

definition confidenceOf :: "jsvalue \<Rightarrow> int" where
  "confidenceOf c = (case c of Some (JNum n) \<Rightarrow> n | _ \<Rightarrow> 75)"


section \<open>labelDataItem\<close>

text \<open>
  The prompt is built from the intent and the item's text and only feeds the inference
  call, so the functions below take the outcome of the call where the source takes
  \<^verbatim>\<open>env\<close>; the intent is kept as a parameter.
\<close>

definition labelDataItem_try ::
  "DataItem \<Rightarrow> ApiLabelingIntent \<Rightarrow> (string \<times> json) list ai_outcome \<Rightarrow> thrown + LabelResult" where
  "labelDataItem_try item intent outcome =
     (case outcome of
        Rejected e \<Rightarrow> Inl e
      | NoJsonMatch \<Rightarrow> Inl (Error ''Failed to parse AI response'')
      | JsonSyntaxError m \<Rightarrow> Inl (Error m)
      | Parsed result \<Rightarrow>
          (case labelOf (map_of result ''label'') of
             Inl e \<Rightarrow> Inl e
           | Inr label0 \<Rightarrow>
          (case repairLabel label0 of
             Inl e \<Rightarrow> Inl e
           | Inr lbl \<Rightarrow>
          (let conf = confidenceOf (map_of result ''confidence'') in
           case reasoningOf (map_of result ''reasoning'') (map_of result ''label'') of
             Inl e \<Rightarrow> Inl e
           | Inr rsn \<Rightarrow>
               Inr \<lparr> itemId = item_id item, label = lbl, confidence = conf, reasoning = rsn,
                     uncertaintyExplanation = map_of result ''uncertainty_explanation'',
                     needsReview = (conf < 70), needsLLMReasoning = False \<rparr>))))"

definition itemErrorResult :: "thrown \<Rightarrow> DataItem \<Rightarrow> LabelResult" where
  "itemErrorResult e item =
     \<lparr> itemId = item_id item, label = ''Error: Needs Manual Review'', confidence = 0,
       reasoning = ''The AI model encountered an error while processing this item. Error details: ''
                   @ errorMessage e @ ''. Please assign a label manually.'',
       uncertaintyExplanation = Some (JStr ''This item requires manual labeling due to processing errors.''),
       needsReview = True, needsLLMReasoning = False \<rparr>"

definition labelDataItem ::
  "DataItem \<Rightarrow> ApiLabelingIntent \<Rightarrow> (string \<times> json) list ai_outcome \<Rightarrow> LabelResult" where
  "labelDataItem item intent outcome =
     (case labelDataItem_try item intent outcome of
        Inr r \<Rightarrow> r
      | Inl e \<Rightarrow> itemErrorResult e item)"


section \<open>labelDataBatch\<close>

text \<open>
  The chunking loop \<^verbatim>\<open>for (let i = 0; i < items.length; i += batchSize)\<close>.  With a batch
  size of 0 and a non-empty list it runs forever, which is the value \<open>None\<close>.
\<close>

function splitBatches :: "'a list \<Rightarrow> nat \<Rightarrow> nat \<Rightarrow> 'a list list option" where
  "splitBatches items batchSize i =
     (if i < length items then
        (if batchSize = 0 then None
         else map_option (\<lambda>bs. take batchSize (drop i items) # bs)
                (splitBatches items batchSize (i + batchSize)))
      else Some [])"
  by pat_completeness auto
termination
  by (relation "measure (\<lambda>(items, batchSize, i). length items - i)") auto

declare splitBatches.simps [simp del]

text \<open>
  One element of \<^verbatim>\<open>batch.forEach((item, index) => ...)\<close> for a truthy \<^verbatim>\<open>result\<close>: the
  reasoning is settled first, then the confidence, then the label.
\<close>

definition batchItemResult :: "DataItem \<Rightarrow> json \<Rightarrow> thrown + LabelResult" where
  "batchItemResult item result =
     (case reasoningOf (getProp result ''reasoning'') (getProp result ''label'') of
        Inl e \<Rightarrow> Inl e
      | Inr rsn \<Rightarrow>
     (let conf = confidenceOf (getProp result ''confidence'') in
      case labelOf (getProp result ''label'') of
        Inl e \<Rightarrow> Inl e
      | Inr label0 \<Rightarrow>
     (case repairLabel label0 of
        Inl e \<Rightarrow> Inl e
      | Inr lbl \<Rightarrow>
          Inr \<lparr> itemId = item_id item, label = lbl, confidence = conf, reasoning = rsn,
                uncertaintyExplanation = getProp result ''uncertainty_explanation'',
                needsReview = (conf < 70), needsLLMReasoning = False \<rparr>)))"

text \<open>
  The \<^verbatim>\<open>forEach\<close> over the batch, from position \<open>index\<close> on: a position whose entry
  of the response array is missing or falsy is skipped (\<^verbatim>\<open>if (!result) return;\<close>); an
  exception leaves the loop with the results pushed so far.
\<close>

definition entryAt :: "json list \<Rightarrow> nat \<Rightarrow> jsvalue" where
  "entryAt batchResults index =
     (if index < length batchResults then Some (batchResults ! index) else None)"

fun batchForEach ::
  "DataItem list \<Rightarrow> nat \<Rightarrow> json list \<Rightarrow> LabelResult list \<Rightarrow> LabelResult list \<times> thrown option" where
  "batchForEach [] index batchResults acc = (acc, None)"
| "batchForEach (item # rest) index batchResults acc =
     (let result = entryAt batchResults index in
      if \<not> truthy result then batchForEach rest (Suc index) batchResults acc
      else (case batchItemResult item (the result) of
              Inl e \<Rightarrow> (acc, Some e)
            | Inr r \<Rightarrow> batchForEach rest (Suc index) batchResults (acc @ [r])))"

definition batch_try ::
  "DataItem list \<Rightarrow> json list ai_outcome \<Rightarrow> LabelResult list \<Rightarrow> LabelResult list \<times> thrown option" where
  "batch_try batch outcome acc =
     (case outcome of
        Rejected e \<Rightarrow> (acc, Some e)
      | NoJsonMatch \<Rightarrow> (acc, Some (Error ''Failed to parse AI batch response''))
      | JsonSyntaxError m \<Rightarrow> (acc, Some (Error m))
      | Parsed batchResults \<Rightarrow> batchForEach batch 0 batchResults acc)"

definition batchErrorResult :: "thrown \<Rightarrow> DataItem \<Rightarrow> LabelResult" where
  "batchErrorResult e item =
     \<lparr> itemId = item_id item, label = ''Error: Needs Manual Review'', confidence = 0,
       reasoning = ''The AI model encountered an error while processing this batch of items. Error details: ''
                   @ errorMessage e @ ''. Please assign a label manually.'',
       uncertaintyExplanation =
         Some (JStr ''This item requires manual labeling due to batch processing errors.''),
       needsReview = True, needsLLMReasoning = False \<rparr>"

text \<open>
  One round of \<^verbatim>\<open>for (const batch of batches)\<close>, the \<open>k\<close>-th inference call of the run:
  a batch of one item goes through \<open>labelDataItem\<close>, which catches its own exceptions.
\<close>

definition processBatch ::
  "env \<Rightarrow> ApiLabelingIntent \<Rightarrow> nat \<Rightarrow> DataItem list \<Rightarrow> LabelResult list \<Rightarrow> LabelResult list" where
  "processBatch e intent k batch acc =
     (if length batch = 1 then acc @ [labelDataItem (batch ! 0) intent (run_item e k)]
      else (case batch_try batch (run_batch e k) acc of
              (acc', None) \<Rightarrow> acc'
            | (acc', Some err) \<Rightarrow> acc' @ map (batchErrorResult err) batch))"

text \<open>The loop over the batches; it returns the results and the number of inference calls made so far.\<close>

fun processBatches ::
  "env \<Rightarrow> ApiLabelingIntent \<Rightarrow> nat \<Rightarrow> DataItem list list \<Rightarrow> LabelResult list \<Rightarrow> LabelResult list \<times> nat" where
  "processBatches e intent k [] acc = (acc, k)"
| "processBatches e intent k (batch # rest) acc =
     processBatches e intent (Suc k) rest (processBatch e intent k batch acc)"

definition labelDataBatch ::
  "DataItem list \<Rightarrow> ApiLabelingIntent \<Rightarrow> env \<Rightarrow> nat \<Rightarrow> clock \<Rightarrow> (BatchLabelingResult \<times> nat) option" where
  "labelDataBatch items intent e batchSize clk =
     (case splitBatches items batchSize 0 of
        None \<Rightarrow> None
      | Some batches \<Rightarrow>
          (let (rs, calls) = processBatches e intent 0 batches [] in
           Some (\<lparr> results = rs, completedAt = endIso clk,
                   processingTimeMs = endMs clk - startMs clk,
                   totalItems = length items,
                   reviewNeeded = length (filter needsReview rs) \<rparr>, calls)))"


text \<open>
  Reading the run: the exception a chunk raises (if any), the fallback results its catch
  block pushes, the results the chunk had pushed before the exception, and what makes a
  result a fallback for an item: the item's id, the label \<^verbatim>\<open>Error: Needs Manual Review\<close>,
  confidence 0, the review flag, and a reasoning that contains the message \<open>msg\<close>.
\<close>

definition chunkException :: "env \<Rightarrow> ApiLabelingIntent \<Rightarrow> nat \<Rightarrow> DataItem list \<Rightarrow> thrown option" where
  "chunkException e intent k batch =
     (if length batch = 1 then
        (case labelDataItem_try (batch ! 0) intent (run_item e k) of
           Inl err \<Rightarrow> Some err
         | Inr r \<Rightarrow> None)
      else snd (batch_try batch (run_batch e k) []))"

definition chunkFallback :: "thrown \<Rightarrow> DataItem list \<Rightarrow> LabelResult list" where
  "chunkFallback err batch =
     (if length batch = 1 then [itemErrorResult err (batch ! 0)]
      else map (batchErrorResult err) batch)"

definition pushedBefore :: "env \<Rightarrow> nat \<Rightarrow> DataItem list \<Rightarrow> LabelResult list" where
  "pushedBefore e k batch =
     (if length batch = 1 then [] else fst (batch_try batch (run_batch e k) []))"

definition isFallbackFor :: "string \<Rightarrow> DataItem \<Rightarrow> LabelResult \<Rightarrow> bool" where
  "isFallbackFor msg item r =
     (itemId r = item_id item \<and> label r = ''Error: Needs Manual Review'' \<and> confidence r = 0 \<and>
      needsReview r \<and> str_includes (reasoning r) msg)"


section \<open>The request handler (handleLabelingRequest)\<close>

datatype response_body =
    ErrorBody string
  | InternalErrorBody string string
  | ResultBody BatchLabelingResult

record http_response =
  status :: nat
  body :: response_body

definition isArray :: "jsvalue \<Rightarrow> bool" where
  "isArray v = (case v of Some (JArr xs) \<Rightarrow> True | _ \<Rightarrow> False)"

definition elements :: "jsvalue \<Rightarrow> json list" where
  "elements v = (case v of Some (JArr xs) \<Rightarrow> xs | _ \<Rightarrow> [])"

definition stringOf :: "jsvalue \<Rightarrow> string" where
  "stringOf v = (case v of Some (JStr s) \<Rightarrow> s | _ \<Rightarrow> [])"

text \<open>
  \<^verbatim>\<open>const data: DataItem[] = body.data; const intent: ApiLabelingIntent = body.intent;\<close>
  are unchecked casts.  Past validation the model reads each element that is not
  \<^verbatim>\<open>null\<close> as the \<^verbatim>\<open>{id, text}\<close> record of strings the annotation names (a field that
  is absent or not a string is read as the empty string), and the intent likewise.
\<close>

definition dataItemOf :: "json \<Rightarrow> DataItem" where
  "dataItemOf j = \<lparr> item_text = stringOf (getProp j ''text''), item_id = stringOf (getProp j ''id'') \<rparr>"

definition apiIntentOf :: "json \<Rightarrow> ApiLabelingIntent" where
  "apiIntentOf j =
     \<lparr> apiDatasetDescription = stringOf (getProp j ''datasetDescription''),
       apiLabelCategories = map (\<lambda>c. stringOf (Some c)) (elements (getProp j ''labelCategories'')),
       apiGuidelines = stringOf (getProp j ''guidelines'') \<rparr>"

text \<open>
  An element that is \<^verbatim>\<open>null\<close> makes \<^verbatim>\<open>item.text\<close> throw inside the \<^verbatim>\<open>try\<close> block of its
  chunk, where the prompt is built, before the inference call of that chunk; the
  \<^verbatim>\<open>catch\<close> block then reads \<^verbatim>\<open>item.id\<close> and throws again (in \<open>labelDataItem\<close> for a
  chunk of one item, and in the \<^verbatim>\<open>catch\<close> block of \<open>labelDataBatch\<close> for every chunk).
  So the exception leaves \<open>labelDataBatch\<close> once the chunks before the first
  \<^verbatim>\<open>null\<close> have been processed, each with its one call.
\<close>

definition nullItemError :: thrown where
  "nullItemError =
     Error (''Cannot read properties of null (reading '' @ [CHR 0x27] @ ''id'' @ [CHR 0x27] @ '')'')"

definition firstNull :: "json list \<Rightarrow> nat" where
  "firstNull xs = length (takeWhile (\<lambda>x. x \<noteq> JNull) xs)"

definition badRequest :: "string \<Rightarrow> http_response" where
  "badRequest msg = \<lparr> status = 400, body = ErrorBody msg \<rparr>"

definition internalError :: "thrown \<Rightarrow> http_response" where
  "internalError err = \<lparr> status = 500, body = InternalErrorBody ''Internal server error'' (errorMessage err) \<rparr>"

text \<open>
  The request is the outcome of \<^verbatim>\<open>request.json()\<close>: it throws, or gives the parsed body.
  The handler returns its response and the number of inference calls it issued.
\<close>

definition handleLabelingRequest ::
  "thrown + json \<Rightarrow> env \<Rightarrow> clock \<Rightarrow> (http_response \<times> nat) option" where
  "handleLabelingRequest request e clk =
     (case request of
        Inl err \<Rightarrow> Some (internalError err, 0)
      | Inr reqBody \<Rightarrow>
          if reqBody = JNull then
            Some (internalError (Error (''Cannot read properties of null (reading '' @ [CHR 0x27] @
                                         ''data'' @ [CHR 0x27] @ '')'')), 0)
          else
            (let data = getProp reqBody ''data''; intent = getProp reqBody ''intent'' in
             if \<not> truthy data \<or> \<not> truthy intent then
               Some (badRequest ''Missing required fields: data and intent'', 0)
             else if \<not> isArray data \<or> length (elements data) = 0 \<or> length (elements data) > 100 then
               Some (badRequest ''Data must be an array with 1-100 items'', 0)
             else if \<not> truthy (getProp (the intent) ''datasetDescription'') \<or>
                     \<not> isArray (getProp (the intent) ''labelCategories'') \<or>
                     length (elements (getProp (the intent) ''labelCategories'')) = 0 then
               Some (badRequest ''Intent must include datasetDescription and at least one labelCategory'', 0)
             else
               (let batchSize = (if length (elements data) \<le> 5 then 1 else 5) in
                if JNull \<in> set (elements data) then
                  Some (internalError nullItemError, firstNull (elements data) div batchSize)
                else
                  (case labelDataBatch (map dataItemOf (elements data)) (apiIntentOf (the intent)) e batchSize clk of
                     None \<Rightarrow> None
                   | Some (result, calls) \<Rightarrow> Some (\<lparr> status = 200, body = ResultBody result \<rparr>, calls)))))"


section \<open>The client hook (useLabelingService.ts)\<close>

record LabelOption =
  opt_name :: string
  opt_description :: string

record LabelCategory =
  cat_type :: string
  cat_guideline :: string
  cat_options :: "LabelOption list"

record LabelingIntent =
  datasetDescription :: string
  labelCategories :: "LabelCategory list"
  generalGuidelines :: string

subsection \<open>postProcessResults\<close>

text \<open>
  \<^verbatim>\<open>groupedByItem\<close> is an object keyed by item id, read back with \<^verbatim>\<open>Object.entries\<close>.
  Item ids are the strings \<^verbatim>\<open>item-<index>\<close> (DataLabeler.tsx mints them), which an
  object enumerates in insertion order, so the object is the list of its entries in the
  order the keys were first set.  Ids that an object treats otherwise are outside the
  model: the decimal numerals, which are enumerated first and in numeric order, and the
  names of the members of \<^verbatim>\<open>Object.prototype\<close>, which are found set on the empty object.
\<close>

definition groupStep ::
  "LabelResult \<Rightarrow> (string \<times> LabelResult list) list \<Rightarrow> (string \<times> LabelResult list) list" where
  "groupStep result acc =
     (if map_of acc (itemId result) = None then acc @ [(itemId result, [result])]
      else map (\<lambda>(k, v). if k = itemId result then (k, v @ [result]) else (k, v)) acc)"

definition groupByItem :: "LabelResult list \<Rightarrow> (string \<times> LabelResult list) list" where
  "groupByItem rs = fold groupStep rs []"

definition labelType :: "LabelResult \<Rightarrow> string" where
  "labelType r = trim (hd (split_on CHR '':'' (label r)))"

definition usedLabelTypes :: "LabelResult list \<Rightarrow> string set" where
  "usedLabelTypes itemResults = set (map labelType itemResults)"

definition placeholder :: "string \<Rightarrow> LabelCategory \<Rightarrow> LabelResult" where
  "placeholder iid category =
     \<lparr> itemId = iid,
       label = cat_type category @ '': '' @ opt_name (hd (cat_options category)),
       confidence = 0,
       reasoning = ''[This label was added automatically to ensure all categories are covered. Please review and update as needed.]'',
       uncertaintyExplanation =
         Some (JStr ''This label was automatically added and requires human verification.''),
       needsReview = True, needsLLMReasoning = True \<rparr>"

definition addUnused ::
  "string \<Rightarrow> string set \<Rightarrow> LabelCategory \<Rightarrow> LabelResult list \<Rightarrow> LabelResult list" where
  "addUnused iid used category enhancedResults =
     (if cat_type category \<notin> used \<and> length (cat_options category) > 0
      then enhancedResults @ [placeholder iid category]
      else enhancedResults)"

definition enhanceItem ::
  "LabelingIntent \<Rightarrow> string \<times> LabelResult list \<Rightarrow> LabelResult list \<Rightarrow> LabelResult list" where
  "enhanceItem intent entry enhancedResults =
     (let iid = fst entry; itemResults = snd entry;
          used = usedLabelTypes itemResults;
          withOriginals = enhancedResults @ itemResults in
      if length (labelCategories intent) > 1 \<and> card used < length (labelCategories intent)
      then fold (addUnused iid used) (labelCategories intent) withOriginals
      else withOriginals)"

text \<open>The third parameter of the source, \<^verbatim>\<open>data\<close>, is never read there and is left out.\<close>

definition postProcessResults :: "LabelResult list \<Rightarrow> LabelingIntent \<Rightarrow> LabelResult list" where
  "postProcessResults rs intent = fold (enhanceItem intent) (groupByItem rs) []"

text \<open>
  Reading the output: the placeholders one entry of \<^verbatim>\<open>groupedByItem\<close> gets.
\<close>

definition synthesized :: "LabelingIntent \<Rightarrow> string \<Rightarrow> LabelResult list \<Rightarrow> LabelResult list" where
  "synthesized intent iid itemResults =
     (if length (labelCategories intent) > 1 \<and>
         card (usedLabelTypes itemResults) < length (labelCategories intent)
      then map (placeholder iid)
             (filter (\<lambda>category. cat_type category \<notin> usedLabelTypes itemResults \<and>
                                  cat_options category \<noteq> [])
                (labelCategories intent))
      else [])"

text \<open>
  \<open>grouped groups rs\<close>: the groups have distinct keys, the ids of the results, and each
  group holds the results of its item, in their order in \<open>rs\<close>.
\<close>

definition grouped :: "(string \<times> LabelResult list) list \<Rightarrow> LabelResult list \<Rightarrow> bool" where
  "grouped groups rs =
     (distinct (map fst groups) \<and>
      (\<forall>entry \<in> set groups. snd entry = filter (\<lambda>r. itemId r = fst entry) rs \<and> snd entry \<noteq> []) \<and>
      fst ` set groups = itemId ` set rs)"

subsection \<open>generateReasoningForLabels\<close>

text \<open>
  One round trip to \<^verbatim>\<open>/api/completion\<close>: it fails (the fetch, \<^verbatim>\<open>response.json()\<close> or
  \<^verbatim>\<open>JSON.parse\<close> throws), the response is not ok, or the completion parses to an object
  keyed by label.  An entry is a bare string or an object with the optional fields
  \<^verbatim>\<open>reasoning\<close>, \<^verbatim>\<open>confidence\<close>, \<^verbatim>\<open>uncertainty\<close>, the two shapes the prompt describes.
\<close>

datatype reasoning_entry =
    LegacyText string
  | Structured "string option" "int option" jsvalue

datatype backfill_outcome =
    RoundTripThrows thrown
  | ResponseNotOk
  | ReasoningJson "(string \<times> reasoning_entry) list"

type_synonym label_ref = "nat \<times> string"

type_synonym items_to_process = "(string \<times> DataItem \<times> label_ref list) list"

fun findIndex :: "('a \<Rightarrow> bool) \<Rightarrow> 'a list \<Rightarrow> nat option" where
  "findIndex P [] = None"
| "findIndex P (x # xs) = (if P x then Some 0 else map_option Suc (findIndex P xs))"

definition collectStep ::
  "DataItem list \<Rightarrow> LabelResult list \<Rightarrow> LabelResult \<Rightarrow> items_to_process \<Rightarrow> items_to_process" where
  "collectStep data updatedResults result m =
     (case find (\<lambda>d. item_id d = itemId result) data of
        None \<Rightarrow> m
      | Some item \<Rightarrow>
          (let m1 = (if map_of m (itemId result) = None then m @ [(itemId result, item, [])] else m) in
           case findIndex (\<lambda>r. itemId r = itemId result \<and> label r = label result) updatedResults of
             None \<Rightarrow> m1
           | Some originalIndex \<Rightarrow>
               map (\<lambda>(k, it, ls).
                      if k = itemId result then (k, it, ls @ [(originalIndex, label result)])
                      else (k, it, ls)) m1))"

definition entryTruthy :: "reasoning_entry \<Rightarrow> bool" where
  "entryTruthy labelData = (case labelData of LegacyText s \<Rightarrow> s \<noteq> [] | Structured r c u \<Rightarrow> True)"

definition applyReasoning :: "reasoning_entry \<Rightarrow> LabelResult \<Rightarrow> LabelResult" where
  "applyReasoning labelData prev =
     (let (rsn, conf, uncertainty) =
            (case labelData of
               LegacyText s \<Rightarrow> (Some s, Some 75, None)
             | Structured r c u \<Rightarrow> (r, c, u)) in
      prev \<lparr> reasoning := (case rsn of Some s \<Rightarrow> if s \<noteq> [] then s else reasoning prev
                                      | None \<Rightarrow> reasoning prev),
             confidence := (case conf of Some c \<Rightarrow> if c \<noteq> 0 then c else confidence prev
                                       | None \<Rightarrow> confidence prev),
             uncertaintyExplanation := uncertainty,
             needsReview := ((case conf of Some c \<Rightarrow> c < 70 | None \<Rightarrow> False) \<or> needsReview prev),
             needsLLMReasoning := False \<rparr>)"

definition successStep ::
  "(string \<times> reasoning_entry) list \<Rightarrow> label_ref \<Rightarrow> LabelResult list \<Rightarrow> LabelResult list" where
  "successStep reasoningJson labelInfo updatedResults =
     (case map_of reasoningJson (snd labelInfo) of
        None \<Rightarrow> updatedResults
      | Some labelData \<Rightarrow>
          if entryTruthy labelData
          then updatedResults[fst labelInfo := applyReasoning labelData (updatedResults ! fst labelInfo)]
          else updatedResults)"

definition fallbackReasoning :: string where
  "fallbackReasoning = ''This label was suggested for this content based on the labeling guidelines. Please review and update as needed.''"

definition applyFallback :: "LabelResult \<Rightarrow> LabelResult" where
  "applyFallback prev =
     prev \<lparr> reasoning := fallbackReasoning,
            confidence := max 60 (confidence prev),
            uncertaintyExplanation :=
              Some (JStr ''There was an issue generating detailed analysis for this label.''),
            needsReview := True,
            needsLLMReasoning := False \<rparr>"

definition fallbackStep :: "label_ref \<Rightarrow> LabelResult list \<Rightarrow> LabelResult list" where
  "fallbackStep labelInfo updatedResults =
     updatedResults[fst labelInfo := applyFallback (updatedResults ! fst labelInfo)]"

text \<open>The loop over the items to process; the \<open>k\<close>-th item makes the \<open>k\<close>-th round trip.\<close>

fun backfillItems ::
  "(nat \<Rightarrow> backfill_outcome) \<Rightarrow> nat \<Rightarrow> items_to_process \<Rightarrow> LabelResult list \<Rightarrow> LabelResult list" where
  "backfillItems roundTrip k [] updatedResults = updatedResults"
| "backfillItems roundTrip k (entry # rest) updatedResults =
     backfillItems roundTrip (Suc k) rest
       (case roundTrip k of
          ReasoningJson reasoningJson \<Rightarrow> fold (successStep reasoningJson) (snd (snd entry)) updatedResults
        | _ \<Rightarrow> fold fallbackStep (snd (snd entry)) updatedResults)"

definition itemsToProcess :: "LabelResult list \<Rightarrow> DataItem list \<Rightarrow> items_to_process" where
  "itemsToProcess rs data = fold (collectStep data rs) (filter needsLLMReasoning rs) []"

definition generateReasoningForLabels ::
  "LabelResult list \<Rightarrow> LabelingIntent \<Rightarrow> DataItem list \<Rightarrow> (nat \<Rightarrow> backfill_outcome) \<Rightarrow> LabelResult list" where
  "generateReasoningForLabels rs intent data roundTrip =
     (if length (filter needsLLMReasoning rs) = 0 then rs
      else backfillItems roundTrip 0 (itemsToProcess rs data) rs)"

text \<open>
  Reading the loop: one round of it, the result positions an entry of
  \<^verbatim>\<open>itemsToProcess\<close> points to, and the two facts about the collected entries the
  proofs carry along (every position an entry points to holds a result of the entry's
  item; some entry of an item points to a position).
\<close>

definition backfillStep ::
  "(nat \<Rightarrow> backfill_outcome) \<Rightarrow> nat \<Rightarrow> string \<times> DataItem \<times> label_ref list \<Rightarrow> LabelResult list \<Rightarrow> LabelResult list" where
  "backfillStep roundTrip k entry us =
     (case roundTrip k of
        ReasoningJson reasoningJson \<Rightarrow> fold (successStep reasoningJson) (snd (snd entry)) us
      | _ \<Rightarrow> fold fallbackStep (snd (snd entry)) us)"

definition indices :: "string \<times> DataItem \<times> label_ref list \<Rightarrow> nat set" where
  "indices entry = fst ` set (snd (snd entry))"

definition targets_ok :: "items_to_process \<Rightarrow> LabelResult list \<Rightarrow> bool" where
  "targets_ok m us =
     (distinct (map fst m) \<and>
      (\<forall>entry \<in> set m. \<forall>j \<in> indices entry. j < length us \<and> itemId (us ! j) = fst entry))"

definition has_target :: "items_to_process \<Rightarrow> string \<Rightarrow> nat \<Rightarrow> bool" where
  "has_target m k i = (\<exists>entry \<in> set m. fst entry = k \<and> i \<in> indices entry)"

subsection \<open>labelData, updateLabel, exportToCsv\<close>

text \<open>
  The \<^verbatim>\<open>fetch("/api/label")\<close> of \<^verbatim>\<open>labelData\<close>: it throws, answers with an error status,
  or answers with the server's result.  \<open>elapsed\<close> is the clock difference the hook stores.
  The hook's state \<^verbatim>\<open>results\<close> is \<open>None\<close> for \<^verbatim>\<open>null\<close>.
\<close>

datatype label_fetch = FetchThrows thrown | FetchNotOk | FetchOk BatchLabelingResult

definition labelData ::
  "DataItem list \<Rightarrow> LabelingIntent \<Rightarrow> label_fetch \<Rightarrow> (nat \<Rightarrow> backfill_outcome) \<Rightarrow> int
     \<Rightarrow> BatchLabelingResult option" where
  "labelData data intent fetched roundTrip elapsed =
     (case fetched of
        FetchOk resultData \<Rightarrow>
          (let processed = postProcessResults (results resultData) intent;
               processed' = (if length (filter needsLLMReasoning processed) > 0
                             then generateReasoningForLabels processed intent data roundTrip
                             else processed)
           in Some (resultData \<lparr> results := processed', processingTimeMs := elapsed \<rparr>))
      | _ \<Rightarrow> None)"

definition updateLabel :: "string \<Rightarrow> string \<Rightarrow> BatchLabelingResult option \<Rightarrow> BatchLabelingResult option" where
  "updateLabel iid newLabel st =
     (case st of
        None \<Rightarrow> None
      | Some res \<Rightarrow>
          (let updatedResults =
                 map (\<lambda>result. if itemId result = iid \<and> label result = newLabel
                                then result \<lparr> needsReview := False, confidence := 100 \<rparr>
                                else result) (results res)
           in Some (res \<lparr> results := updatedResults,
                          reviewNeeded := length (filter needsReview updatedResults) \<rparr>)))"

definition csvEscape :: "string \<Rightarrow> string" where
  "csvEscape s = concat (map (\<lambda>c. if c = dquote then [dquote, dquote] else [c]) s)"

definition csvQuoted :: "string \<Rightarrow> string" where
  "csvQuoted s = [dquote] @ csvEscape s @ [dquote]"

definition csvRow :: "LabelResult \<Rightarrow> string" where
  "csvRow result =
     join '',''
       [itemId result, csvQuoted (label result), show_int (confidence result),
        csvQuoted (reasoning result), if needsReview result then ''Yes'' else ''No'']"

definition csvHeader :: string where
  "csvHeader = ''ItemId,Label,Confidence,Reasoning,NeedsReview''"

definition exportToCsv :: "BatchLabelingResult option \<Rightarrow> string" where
  "exportToCsv st =
     (case st of
        None \<Rightarrow> ''No data available for export''
      | Some res \<Rightarrow>
          if length (results res) = 0 then ''No data available for export''
          else (csvHeader @ [newline]) @ join [newline] (map csvRow (results res)))"

text \<open>
  Two ways of reading the export back: its lines, and its records as a CSV reader sees
  them, for which a line feed between double quotes belongs to the field.
\<close>

definition csvLines :: "string \<Rightarrow> string list" where
  "csvLines s = split_on newline s"

fun csvRecordsFrom :: "bool \<Rightarrow> string \<Rightarrow> string \<Rightarrow> string list" where
  "csvRecordsFrom inQuotes cur [] = [rev cur]"
| "csvRecordsFrom inQuotes cur (c # cs) =
     (if c = dquote then csvRecordsFrom (\<not> inQuotes) (c # cur) cs
      else if c = newline \<and> \<not> inQuotes then rev cur # csvRecordsFrom False [] cs
      else csvRecordsFrom inQuotes (c # cur) cs)"

definition csvRecords :: "string \<Rightarrow> string list" where
  "csvRecords s = csvRecordsFrom False [] s"


section \<open>The session store (dataStorage.ts)\<close>

datatype session_status = in_progress | completed

record LabelingSession =
  session_id :: string
  session_name :: string
  session_createdAt :: string
  session_updatedAt :: string
  session_data :: "DataItem list"
  session_intent :: LabelingIntent
  session_results :: "LabelResult list"
  session_status :: session_status

record SessionMetadata =
  meta_id :: string
  meta_name :: string
  meta_createdAt :: string
  meta_updatedAt :: string
  meta_status :: "session_status option"

text \<open>
  Local storage as the store sees it: the session records, by session id (the key is
  \<^verbatim>\<open>data-labeler-session-<id>\<close>), and the value under the index key
  \<^verbatim>\<open>data-labeler-sessions\<close>, \<open>None\<close> while the key is unset.  No record key equals the
  index key.
\<close>

record storage =
  sessionRecords :: "string \<rightharpoonup> LabelingSession"
  sessionsIndex :: "SessionMetadata list option"

record metadata_updates =
  upd_name :: "string option"
  upd_updatedAt :: "string option"
  upd_status :: "session_status option"

definition getSessions :: "storage \<Rightarrow> SessionMetadata list" where
  "getSessions st = (case sessionsIndex st of Some sessions \<Rightarrow> sessions | None \<Rightarrow> [])"

definition getSession :: "storage \<Rightarrow> string \<Rightarrow> LabelingSession option" where
  "getSession st sessionId = sessionRecords st sessionId"

definition saveSession :: "LabelingSession \<Rightarrow> storage \<Rightarrow> storage" where
  "saveSession session st = st \<lparr> sessionRecords := (sessionRecords st)(session_id session \<mapsto> session) \<rparr>"

definition saveSessions :: "SessionMetadata list \<Rightarrow> storage \<Rightarrow> storage" where
  "saveSessions sessions st = st \<lparr> sessionsIndex := Some sessions \<rparr>"

definition applyUpdates :: "metadata_updates \<Rightarrow> SessionMetadata \<Rightarrow> SessionMetadata" where
  "applyUpdates updates session =
     session \<lparr> meta_name := (case upd_name updates of Some n \<Rightarrow> n | None \<Rightarrow> meta_name session),
               meta_updatedAt := (case upd_updatedAt updates of Some u \<Rightarrow> u | None \<Rightarrow> meta_updatedAt session),
               meta_status := (case upd_status updates of Some s \<Rightarrow> Some s | None \<Rightarrow> meta_status session) \<rparr>"

definition updateSessionMetadata :: "string \<Rightarrow> metadata_updates \<Rightarrow> storage \<Rightarrow> bool \<times> storage" where
  "updateSessionMetadata sessionId updates st =
     (let sessions = getSessions st;
          updatedSessions = map (\<lambda>session. if meta_id session = sessionId
                                             then applyUpdates updates session else session) sessions
      in (True, saveSessions updatedSessions st))"

definition createSession ::
  "string \<Rightarrow> string \<Rightarrow> string \<Rightarrow> DataItem list \<Rightarrow> LabelingIntent \<Rightarrow> storage \<Rightarrow> LabelingSession \<times> storage" where
  "createSession newId now name data intent st =
     (let session = \<lparr> session_id = newId, session_name = name, session_createdAt = now,
                      session_updatedAt = now, session_data = data, session_intent = intent,
                      session_results = [], session_status = in_progress \<rparr>;
          st1 = saveSession session st;
          sessions = getSessions st1
      in (session, saveSessions (sessions @ [\<lparr> meta_id = newId, meta_name = name, meta_createdAt = now,
                                               meta_updatedAt = now, meta_status = None \<rparr>]) st1))"

definition updateSessionResults ::
  "string \<Rightarrow> string \<Rightarrow> LabelResult list \<Rightarrow> storage \<Rightarrow> LabelingSession option \<times> storage" where
  "updateSessionResults now sessionId rs st =
     (case getSession st sessionId of
        None \<Rightarrow> (None, st)
      | Some session \<Rightarrow>
          (let updatedSession = session \<lparr> session_results := rs, session_updatedAt := now \<rparr>;
               st1 = saveSession updatedSession st;
               st2 = snd (updateSessionMetadata sessionId
                            \<lparr> upd_name = None, upd_updatedAt = Some (session_updatedAt updatedSession),
                              upd_status = None \<rparr> st1)
           in (Some updatedSession, st2)))"

definition completeSession :: "string \<Rightarrow> string \<Rightarrow> storage \<Rightarrow> LabelingSession option \<times> storage" where
  "completeSession now sessionId st =
     (case getSession st sessionId of
        None \<Rightarrow> (None, st)
      | Some session \<Rightarrow>
          (let updatedSession = session \<lparr> session_status := completed, session_updatedAt := now \<rparr>;
               st1 = saveSession updatedSession st;
               st2 = snd (updateSessionMetadata sessionId
                            \<lparr> upd_name = None, upd_updatedAt = Some (session_updatedAt updatedSession),
                              upd_status = Some completed \<rparr> st1)
           in (Some updatedSession, st2)))"

definition deleteSession :: "string \<Rightarrow> storage \<Rightarrow> bool \<times> storage" where
  "deleteSession sessionId st =
     (let st1 = st \<lparr> sessionRecords := (sessionRecords st)(sessionId := None) \<rparr>;
          sessions = getSessions st1;
          updatedSessions = filter (\<lambda>s. meta_id s \<noteq> sessionId) sessions
      in (True, saveSessions updatedSessions st1))"


section \<open>Concrete runs\<close>

text \<open>
  An environment that answers the successive inference calls from two scripts, and the
  inputs of the runs evaluated below.
\<close>

definition scriptedEnv :: "(string \<times> json) list ai_outcome list \<Rightarrow> json list ai_outcome list \<Rightarrow> env" where
  "scriptedEnv itemCalls batchCalls =
     \<lparr> run_item = (\<lambda>k. if k < length itemCalls then itemCalls ! k else NoJsonMatch),
       run_batch = (\<lambda>k. if k < length batchCalls then batchCalls ! k else NoJsonMatch) \<rparr>"

definition sentimentIntent :: ApiLabelingIntent where
  "sentimentIntent =
     \<lparr> apiDatasetDescription = ''Product reviews'',
       apiLabelCategories = [''Sentiment: Positive | Negative''],
       apiGuidelines = [] \<rparr>"

definition issueIntent :: ApiLabelingIntent where
  "issueIntent =
     \<lparr> apiDatasetDescription = ''Support tickets'',
       apiLabelCategories = [''Issue Type: Bug | Feature''],
       apiGuidelines = [] \<rparr>"

definition item0 :: DataItem where "item0 = \<lparr> item_text = ''Great product'', item_id = ''item-0'' \<rparr>"
definition item1 :: DataItem where "item1 = \<lparr> item_text = ''It broke after a day'', item_id = ''item-1'' \<rparr>"
definition item2 :: DataItem where "item2 = \<lparr> item_text = ''Works as described'', item_id = ''item-2'' \<rparr>"

definition clock0 :: clock where
  "clock0 = \<lparr> startMs = 1000, endMs = 1750, endIso = ''2025-01-01T00:00:00.000Z'' \<rparr>"

definition positive92 :: "(string \<times> json) list" where
  "positive92 = [(''label'', JStr ''Sentiment: Positive''), (''confidence'', JNum 92),
                 (''reasoning'', JStr ''The review praises the product.'')]"

definition echoedBug :: "(string \<times> json) list" where
  "echoedBug = [(''label'', JStr ''Bug: Bug''), (''confidence'', JNum 90),
                (''reasoning'', JStr ''The ticket reports a crash.'')]"

definition validBug :: "(string \<times> json) list" where
  "validBug = [(''label'', JStr ''Issue Type: Bug''), (''confidence'', JNum 90),
                (''reasoning'', JStr ''The ticket reports a crash.'')]"

definition positiveResult0 :: LabelResult where
  "positiveResult0 =
     \<lparr> itemId = ''item-0'', label = ''Sentiment: Positive'', confidence = 92,
       reasoning = ''The review praises the product.'', uncertaintyExplanation = None,
       needsReview = False, needsLLMReasoning = False \<rparr>"

definition shortArrayEnv :: env where
  "shortArrayEnv = scriptedEnv [] [Parsed [JObj positive92]]"

definition threeItemEnv :: env where
  "threeItemEnv = scriptedEnv [Parsed positive92, Rejected (Error ''Network connection lost''), Parsed positive92] []"

definition numericReasoning :: "(string \<times> json) list" where
  "numericReasoning = [(''label'', JStr ''Issue Type: Feature''), (''confidence'', JNum 80),
                       (''reasoning'', JNum 7)]"

definition partialChunkEnv :: env where
  "partialChunkEnv =
     scriptedEnv [Parsed validBug, Parsed validBug] [Parsed [JObj validBug, JObj numericReasoning]]"

definition echoedChunkEnv :: env where
  "echoedChunkEnv = scriptedEnv [] [Parsed [JObj validBug, JObj echoedBug]]"


definition twoCategoryApiIntent :: ApiLabelingIntent where
  "twoCategoryApiIntent =
     \<lparr> apiDatasetDescription = ''Product reviews'',
       apiLabelCategories = [''Sentiment: Positive | Negative'', ''Urgency: High | Low''],
       apiGuidelines = [] \<rparr>"

definition sentimentCategory :: LabelCategory where
  "sentimentCategory =
     \<lparr> cat_type = ''Sentiment'', cat_guideline = ''The tone of the review'',
       cat_options = [\<lparr> opt_name = ''Positive'', opt_description = ''Praise'' \<rparr>,
                      \<lparr> opt_name = ''Negative'', opt_description = ''Complaint'' \<rparr>] \<rparr>"

definition urgencyCategory :: LabelCategory where
  "urgencyCategory =
     \<lparr> cat_type = ''Urgency'', cat_guideline = ''How quickly it needs attention'',
       cat_options = [\<lparr> opt_name = ''High'', opt_description = ''Immediately'' \<rparr>,
                      \<lparr> opt_name = ''Low'', opt_description = ''When time permits'' \<rparr>] \<rparr>"

definition twoCategoryIntent :: LabelingIntent where
  "twoCategoryIntent =
     \<lparr> datasetDescription = ''Product reviews'',
       labelCategories = [sentimentCategory, urgencyCategory],
       generalGuidelines = [] \<rparr>"

definition positiveEnv :: env where
  "positiveEnv = scriptedEnv [Parsed positive92] []"

definition serverOut :: BatchLabelingResult where
  "serverOut =
     \<lparr> results = [positiveResult0], completedAt = ''2025-01-01T00:00:00.000Z'',
       processingTimeMs = 750, totalItems = 1, reviewNeeded = 0 \<rparr>"

definition urgencyPlaceholder :: LabelResult where
  "urgencyPlaceholder = placeholder ''item-0'' urgencyCategory"

definition confidentBackfill :: "nat \<Rightarrow> backfill_outcome" where
  "confidentBackfill k =
     ReasoningJson [(''Urgency: High'',
                     Structured (Some ''The review asks for an immediate replacement.'') (Some 85) None)]"

definition failingBackfill :: "nat \<Rightarrow> backfill_outcome" where
  "failingBackfill k = RoundTripThrows (Error ''Failed to fetch'')"

definition urgency85 :: LabelResult where
  "urgency85 =
     \<lparr> itemId = ''item-0'', label = ''Urgency: High'', confidence = 85,
       reasoning = ''The review asks for an immediate replacement.'',
       uncertaintyExplanation = None, needsReview = True, needsLLMReasoning = False \<rparr>"

definition positiveVerified :: LabelResult where
  "positiveVerified = positiveResult0 \<lparr> needsReview := False, confidence := 100 \<rparr>"


definition reviewIntentJson :: json where
  "reviewIntentJson =
     JObj [(''datasetDescription'', JStr ''Product reviews''),
           (''labelCategories'', JArr [JStr ''Sentiment: Positive | Negative'']),
           (''guidelines'', JStr [])]"

definition itemJson :: json where
  "itemJson = JObj [(''id'', JStr ''item-0''), (''text'', JStr ''Great product'')]"

definition emptyDataRequest :: json where
  "emptyDataRequest = JObj [(''data'', JArr []), (''intent'', reviewIntentJson)]"

definition oversizedRequest :: json where
  "oversizedRequest = JObj [(''data'', JArr (replicate 101 itemJson)), (''intent'', reviewIntentJson)]"

definition noCategoriesRequest :: json where
  "noCategoriesRequest =
     JObj [(''data'', JArr [itemJson]),
           (''intent'', JObj [(''datasetDescription'', JStr ''Product reviews''),
                              (''labelCategories'', JArr [])])]"

definition noIntentRequest :: json where
  "noIntentRequest = JObj [(''data'', JArr [itemJson])]"

definition storedSession :: LabelingSession where
  "storedSession =
     \<lparr> session_id = ''session-1700000000000'', session_name = ''Reviews'',
       session_createdAt = ''2025-01-01T00:00:00.000Z'', session_updatedAt = ''2025-01-01T00:05:00.000Z'',
       session_data = [item0], session_intent = twoCategoryIntent,
       session_results = [positiveResult0], session_status = in_progress \<rparr>"

definition storedMetadata :: SessionMetadata where
  "storedMetadata =
     \<lparr> meta_id = ''session-1700000000000'', meta_name = ''Reviews'',
       meta_createdAt = ''2025-01-01T00:00:00.000Z'', meta_updatedAt = ''2025-01-01T00:05:00.000Z'',
       meta_status = None \<rparr>"

definition oneSessionStore :: storage where
  "oneSessionStore =
     \<lparr> sessionRecords = [''session-1700000000000'' \<mapsto> storedSession],
       sessionsIndex = Some [storedMetadata] \<rparr>"


definition multilineResult :: LabelResult where
  "multilineResult =
     \<lparr> itemId = ''item-0'', label = ''Sentiment: Positive'', confidence = 92,
       reasoning = ''The review praises the product.'' @ [newline] @ ''It also recommends it.'',
       uncertaintyExplanation = None, needsReview = False, needsLLMReasoning = False \<rparr>"

definition multilineState :: BatchLabelingResult where
  "multilineState =
     \<lparr> results = [multilineResult], completedAt = ''2025-01-01T00:00:00.000Z'',
       processingTimeMs = 750, totalItems = 1, reviewNeeded = 0 \<rparr>"


definition fallback0 :: LabelResult where
  "fallback0 = batchErrorResult (Error ''labelCategories is not defined'') item0"


definition duplicateIntent :: LabelingIntent where
  "duplicateIntent =
     \<lparr> datasetDescription = ''Product reviews'',
       labelCategories = [urgencyCategory, urgencyCategory],
       generalGuidelines = [] \<rparr>"


section \<open>Properties of the orchestrator\<close>

subsection \<open>Accumulators, chunks and coverage\<close>

lemma startsWith_append: "startsWith (m @ b) m"
  by (induction m) auto

lemma str_includes_append: "str_includes (a @ m @ b) m"
proof (induction a)
  case Nil
  show ?case by (cases "m @ b") (use startsWith_append[of m b] in auto)
next
  case (Cons c a)
  then show ?case by simp
qed

lemma batchItemResult_itemId: "batchItemResult item result = Inr r \<Longrightarrow> itemId r = item_id item"
  by (auto simp: batchItemResult_def Let_def split: sum.splits)

lemma batchItemResult_review: "batchItemResult item result = Inr r \<Longrightarrow> needsReview r = (confidence r < 70)"
  by (auto simp: batchItemResult_def Let_def split: sum.splits)

lemma batchForEach_acc:
  "batchForEach xs i br acc = (acc @ fst (batchForEach xs i br []), snd (batchForEach xs i br []))"
proof (induction xs arbitrary: i acc)
  case Nil
  show ?case by simp
next
  case (Cons x xs)
  show ?case
  proof (cases "truthy (entryAt br i)")
    case False
    then show ?thesis using Cons.IH[of "Suc i" acc] by (simp add: Let_def)
  next
    case True
    show ?thesis
    proof (cases "batchItemResult x (the (entryAt br i))")
      case (Inl e)
      with True show ?thesis by (simp add: Let_def)
    next
      case (Inr r)
      with True show ?thesis
        using Cons.IH[of "Suc i" "acc @ [r]"] Cons.IH[of "Suc i" "[r]"]
        by (simp add: Let_def)
    qed
  qed
qed

lemma batch_try_acc:
  "batch_try batch outcome acc = (acc @ fst (batch_try batch outcome []), snd (batch_try batch outcome []))"
  using batchForEach_acc[of batch 0 _ acc]
  by (cases outcome) (simp_all add: batch_try_def)

lemma processBatch_acc:
  "processBatch e intent k batch acc = acc @ processBatch e intent k batch []"
proof -
  obtain p t where pt: "batch_try batch (run_batch e k) [] = (p, t)" by (cases "batch_try batch (run_batch e k) []")
  then have "batch_try batch (run_batch e k) acc = (acc @ p, t)"
    using batch_try_acc[of batch "run_batch e k" acc] by simp
  with pt show ?thesis
    by (cases t) (simp_all add: processBatch_def)
qed

lemma processBatches_acc:
  "processBatches e intent k bs acc = (acc @ fst (processBatches e intent k bs []), k + length bs)"
proof (induction bs arbitrary: k acc)
  case Nil
  show ?case by simp
next
  case (Cons b bs)
  show ?case
    using Cons.IH[of "Suc k" "processBatch e intent k b acc"]
          Cons.IH[of "Suc k" "processBatch e intent k b []"]
          processBatch_acc[of e intent k b acc]
    by simp
qed

lemma processBatches_append:
  "fst (processBatches e intent k (bs1 @ bs2) []) =
     fst (processBatches e intent k bs1 []) @ fst (processBatches e intent (k + length bs1) bs2 [])"
proof (induction bs1 arbitrary: k)
  case Nil
  show ?case by simp
next
  case (Cons b bs1)
  have "fst (processBatches e intent k ((b # bs1) @ bs2) [])
        = processBatch e intent k b [] @ fst (processBatches e intent (Suc k) (bs1 @ bs2) [])"
    using processBatches_acc[of e intent "Suc k" "bs1 @ bs2" "processBatch e intent k b []"] by simp
  also have "\<dots> = processBatch e intent k b [] @ fst (processBatches e intent (Suc k) bs1 [])
                   @ fst (processBatches e intent (Suc k + length bs1) bs2 [])"
    using Cons.IH[of "Suc k"] by simp
  also have "\<dots> = fst (processBatches e intent k (b # bs1) []) @ fst (processBatches e intent (k + length (b # bs1)) bs2 [])"
    using processBatches_acc[of e intent "Suc k" bs1 "processBatch e intent k b []"] by simp
  finally show ?case .
qed

lemma processBatches_split:
  assumes "k < length bs"
  shows "fst (processBatches e intent 0 bs []) =
           fst (processBatches e intent 0 (take k bs) []) @ processBatch e intent k (bs ! k) []
           @ fst (processBatches e intent (Suc k) (drop (Suc k) bs) [])"
proof -
  have bs: "bs = take k bs @ (bs ! k # drop (Suc k) bs)"
    using assms by (simp add: id_take_nth_drop)
  have "fst (processBatches e intent 0 bs []) = fst (processBatches e intent 0 (take k bs @ (bs ! k # drop (Suc k) bs)) [])"
    using bs by simp
  also have "\<dots> = fst (processBatches e intent 0 (take k bs) []) @ fst (processBatches e intent k (bs ! k # drop (Suc k) bs) [])"
    using processBatches_append[of e intent 0 "take k bs" "bs ! k # drop (Suc k) bs"] assms by simp
  also have "fst (processBatches e intent k (bs ! k # drop (Suc k) bs) []) =
      processBatch e intent k (bs ! k) [] @ fst (processBatches e intent (Suc k) (drop (Suc k) bs) [])"
    using processBatches_acc[of e intent "Suc k" "drop (Suc k) bs" "processBatch e intent k (bs ! k) []"] by simp
  finally show ?thesis by simp
qed

lemma splitBatches_total:
  assumes "0 < batchSize"
  shows "\<exists>batches. splitBatches items batchSize i = Some batches \<and> concat batches = drop i items
           \<and> (\<forall>b \<in> set batches. b \<noteq> [] \<and> length b \<le> batchSize)"
  using assms
proof (induction items batchSize i rule: splitBatches.induct)
  case (1 items batchSize i)
  show ?case
  proof (cases "i < length items")
    case False
    then show ?thesis by (simp add: splitBatches.simps)
  next
    case True
    from "1.IH"[OF True] "1.prems" obtain bs where
      bs: "splitBatches items batchSize (i + batchSize) = Some bs"
          "concat bs = drop (i + batchSize) items"
          "\<forall>b \<in> set bs. b \<noteq> [] \<and> length b \<le> batchSize"
      by auto
    have "splitBatches items batchSize i = Some (take batchSize (drop i items) # bs)"
      using True "1.prems" bs(1) by (subst splitBatches.simps) simp
    moreover have "concat (take batchSize (drop i items) # bs) = drop i items"
      using bs(2) by (simp add: add.commute drop_drop[symmetric] del: drop_drop)
    moreover have "take batchSize (drop i items) \<noteq> []" using True "1.prems" by simp
    ultimately show ?thesis using bs(3) by auto
  qed
qed

lemma isFallbackFor_item: "isFallbackFor msg item (itemErrorResult (Error msg) item)"
  unfolding isFallbackFor_def itemErrorResult_def
  using str_includes_append[of "''The AI model encountered an error while processing this item. Error details: ''" msg "''. Please assign a label manually.''"]
  by (simp add: errorMessage_def)

lemma isFallbackFor_batch: "isFallbackFor msg item (batchErrorResult (Error msg) item)"
  unfolding isFallbackFor_def batchErrorResult_def
  using str_includes_append[of "''The AI model encountered an error while processing this batch of items. Error details: ''" msg "''. Please assign a label manually.''"]
  by (simp add: errorMessage_def)

lemma chunkFallback_aligned:
  "length (chunkFallback (Error msg) batch) = length batch \<and>
   (\<forall>j < length batch. isFallbackFor msg (batch ! j) (chunkFallback (Error msg) batch ! j))"
  by (auto simp: chunkFallback_def isFallbackFor_item isFallbackFor_batch)

lemma processBatch_raises:
  assumes "chunkException e intent k batch = Some err"
  shows "processBatch e intent k batch [] =
           (if length batch = 1 then [] else fst (batch_try batch (run_batch e k) [])) @ chunkFallback err batch"
proof (cases "length batch = 1")
  case True
  with assms show ?thesis
    by (auto simp: chunkException_def processBatch_def chunkFallback_def labelDataItem_def split: sum.splits)
next
  case False
  with assms show ?thesis
    by (cases "batch_try batch (run_batch e k) []") (auto simp: chunkException_def processBatch_def chunkFallback_def)
qed

lemma batchForEach_mono: "set acc \<subseteq> set (fst (batchForEach xs i br acc))"
  using batchForEach_acc[of xs i br acc] by simp

lemma batchForEach_covers:
  assumes "snd (batchForEach xs i br acc) = None" and "j < length xs"
  shows "(\<exists>r \<in> set (fst (batchForEach xs i br acc)). itemId r = item_id (xs ! j)) \<or> \<not> truthy (entryAt br (i + j))"
  using assms
proof (induction xs arbitrary: i acc j)
  case Nil
  then show ?case by simp
next
  case (Cons x xs)
  show ?case
  proof (cases "truthy (entryAt br i)")
    case False
    then have eq: "batchForEach (x # xs) i br acc = batchForEach xs (Suc i) br acc"
      by (simp add: Let_def)
    show ?thesis
    proof (cases j)
      case 0
      with False show ?thesis by simp
    next
      case (Suc j')
      then show ?thesis using Cons.IH[of "Suc i" acc j'] Cons.prems eq by simp
    qed
  next
    case True
    show ?thesis
    proof (cases "batchItemResult x (the (entryAt br i))")
      case (Inl e)
      with True Cons.prems show ?thesis by (simp add: Let_def)
    next
      case (Inr r)
      with True have eq: "batchForEach (x # xs) i br acc = batchForEach xs (Suc i) br (acc @ [r])"
        by (simp add: Let_def)
      show ?thesis
      proof (cases j)
        case 0
        have "r \<in> set (fst (batchForEach xs (Suc i) br (acc @ [r])))"
          using batchForEach_mono[of "acc @ [r]" xs "Suc i" br] by auto
        moreover have "itemId r = item_id x" using Inr by (rule batchItemResult_itemId)
        ultimately show ?thesis using 0 eq by auto
      next
        case (Suc j')
        then show ?thesis using Cons.IH[of "Suc i" "acc @ [r]" j'] Cons.prems eq by simp
      qed
    qed
  qed
qed

lemma labelDataItem_itemId: "itemId (labelDataItem item intent outcome) = item_id item"
  by (auto simp: labelDataItem_def labelDataItem_try_def itemErrorResult_def Let_def
           split: sum.splits ai_outcome.splits)

lemma processBatch_covers:
  assumes "j < length batch"
  shows "(\<exists>r \<in> set (processBatch e intent k batch []). itemId r = item_id (batch ! j)) \<or>
         (length batch \<noteq> 1 \<and> (\<exists>rs. run_batch e k = Parsed rs \<and> \<not> truthy (entryAt rs j)))"
proof (cases "length batch = 1")
  case True
  with assms have "j = 0" by simp
  with True show ?thesis by (simp add: processBatch_def labelDataItem_itemId)
next
  case False
  obtain p t where pt: "batch_try batch (run_batch e k) [] = (p, t)"
    by (cases "batch_try batch (run_batch e k) []")
  show ?thesis
  proof (cases t)
    case (Some err)
    have "batchErrorResult err (batch ! j) \<in> set (processBatch e intent k batch [])"
      using False pt Some assms by (simp add: processBatch_def)
    moreover have "itemId (batchErrorResult err (batch ! j)) = item_id (batch ! j)"
      by (simp add: batchErrorResult_def)
    ultimately show ?thesis by blast
  next
    case None
    then obtain rs where rs: "run_batch e k = Parsed rs"
      using pt by (cases "run_batch e k") (simp_all add: batch_try_def)
    with pt None have "batchForEach batch 0 rs [] = (p, None)" by (simp add: batch_try_def)
    then have "(\<exists>r \<in> set p. itemId r = item_id (batch ! j)) \<or> \<not> truthy (entryAt rs (0 + j))"
      using batchForEach_covers[of batch 0 rs "[]" j] assms by simp
    moreover have "processBatch e intent k batch [] = p"
      using False pt None by (simp add: processBatch_def)
    ultimately show ?thesis using rs False by auto
  qed
qed

lemma labelDataItem_review: "needsReview (labelDataItem item intent outcome) = (confidence (labelDataItem item intent outcome) < 70)"
  by (auto simp: labelDataItem_def labelDataItem_try_def itemErrorResult_def Let_def
           split: sum.splits ai_outcome.splits)

lemma batchForEach_review:
  assumes "\<forall>r \<in> set acc. needsReview r = (confidence r < 70)"
  shows "\<forall>r \<in> set (fst (batchForEach xs i br acc)). needsReview r = (confidence r < 70)"
  using assms
proof (induction xs arbitrary: i acc)
  case Nil
  then show ?case by simp
next
  case (Cons x xs)
  show ?case
  proof (cases "truthy (entryAt br i)")
    case False
    then show ?thesis using Cons.IH[of acc "Suc i"] Cons.prems by (simp add: Let_def)
  next
    case True
    show ?thesis
    proof (cases "batchItemResult x (the (entryAt br i))")
      case (Inl e)
      with True Cons.prems show ?thesis by (simp add: Let_def)
    next
      case (Inr r)
      have "\<forall>r \<in> set (acc @ [r]). needsReview r = (confidence r < 70)"
        using Cons.prems batchItemResult_review[OF Inr] by auto
      from Cons.IH[OF this, of "Suc i"] True Inr show ?thesis by (simp add: Let_def)
    qed
  qed
qed

lemma processBatch_review:
  "\<forall>r \<in> set (processBatch e intent k batch []). needsReview r = (confidence r < 70)"
proof (cases "length batch = 1")
  case True
  then show ?thesis by (simp add: processBatch_def labelDataItem_review)
next
  case False
  obtain p t where pt: "batch_try batch (run_batch e k) [] = (p, t)"
    by (cases "batch_try batch (run_batch e k) []")
  have p: "\<forall>r \<in> set p. needsReview r = (confidence r < 70)"
  proof (cases "run_batch e k")
    case (Parsed rs)
    have "\<forall>r \<in> set (fst (batchForEach batch 0 rs [])). needsReview r = (confidence r < 70)"
      by (rule batchForEach_review) simp
    with pt Parsed show ?thesis by (simp add: batch_try_def)
  qed (use pt in \<open>auto simp: batch_try_def\<close>)
  show ?thesis using False pt p
    by (cases t) (auto simp: processBatch_def batchErrorResult_def)
qed

lemma processBatches_review:
  "\<forall>r \<in> set (fst (processBatches e intent k bs [])). needsReview r = (confidence r < 70)"
proof (induction bs arbitrary: k)
  case Nil
  show ?case by simp
next
  case (Cons b bs)
  have "fst (processBatches e intent k (b # bs) []) = processBatch e intent k b [] @ fst (processBatches e intent (Suc k) bs [])"
    using processBatches_acc[of e intent "Suc k" bs "processBatch e intent k b []"] by simp
  then show ?case using Cons.IH[of "Suc k"] processBatch_review[of e intent k b] by auto
qed

lemma filter_cong_review:
  "\<forall>r \<in> set rs. needsReview r = (confidence r < 70) \<Longrightarrow> filter needsReview rs = filter (\<lambda>r. confidence r < 70) rs"
  by (induction rs) auto

lemma labelDataBatch_reviewNeeded:
  assumes "labelDataBatch items intent e batchSize clk = Some (out, calls)"
  shows "reviewNeeded out = length (filter needsReview (results out)) \<and>
         reviewNeeded out = length (filter (\<lambda>r. confidence r < 70) (results out))"
proof -
  from assms obtain batches where sb: "splitBatches items batchSize 0 = Some batches"
    by (auto simp: labelDataBatch_def split: option.splits)
  obtain rs c where pb: "processBatches e intent 0 batches [] = (rs, c)"
    by (cases "processBatches e intent 0 batches []")
  have out: "results out = rs" "reviewNeeded out = length (filter needsReview rs)"
    using assms sb pb by (auto simp: labelDataBatch_def)
  have "\<forall>r \<in> set rs. needsReview r = (confidence r < 70)"
    using processBatches_review[of e intent 0 batches] pb by simp
  from filter_cong_review[OF this] out show ?thesis by simp
qed

subsection \<open>Evaluating the concrete runs\<close>

lemma split_echoed: "split_on CHR '':'' ''Bug: Bug'' = [''Bug'', '' Bug'']" by simp

lemma trim_echoed: "trim '' Bug'' = ''Bug''" by (simp add: trim_def isWhiteSpace_def)

lemma repairLabel_echoed: "repairLabel ''Bug: Bug'' = Inl (Error ''labelCategories is not defined'')"
  by (simp add: repairLabel_def trim_def isWhiteSpace_def free_labelCategories_def)

lemma repairLabel_valid: "repairLabel ''Issue Type: Bug'' = Inr ''Issue Type: Bug''"
  by (simp add: repairLabel_def trim_def isWhiteSpace_def free_labelCategories_def)

lemma labelDataItem_echoed_label: "label (labelDataItem item0 issueIntent (Parsed echoedBug)) = ''Error: Needs Manual Review''"
  by (simp add: labelDataItem_def labelDataItem_try_def echoedBug_def labelOf_def repairLabel_echoed itemErrorResult_def)

lemma labelDataItem_valid: "labelDataItem item0 issueIntent (Parsed validBug) =
   \<lparr> itemId = ''item-0'', label = ''Issue Type: Bug'', confidence = 90, reasoning = ''The ticket reports a crash.'',
     uncertaintyExplanation = None, needsReview = False, needsLLMReasoning = False \<rparr>"
  by (simp add: labelDataItem_def labelDataItem_try_def validBug_def labelOf_def repairLabel_valid reasoningOf_def confidenceOf_def trim_def isWhiteSpace_def item0_def)

lemma splitBatches_three: "splitBatches [item0, item1, item2] 1 0 = Some [[item0], [item1], [item2]]"
  by (simp add: splitBatches.simps)

lemma splitBatches_two: "splitBatches [item0, item1] 5 0 = Some [[item0, item1]]"
  by (simp add: splitBatches.simps)

lemma batchItemResult_positive92: "batchItemResult item0 (JObj positive92) = Inr positiveResult0"
  by (simp add: batchItemResult_def positive92_def reasoningOf_def confidenceOf_def labelOf_def
      repairLabel_def trim_def isWhiteSpace_def item0_def positiveResult0_def)

lemma shortArray_run:
  "processBatches shortArrayEnv sentimentIntent 0 [[item0, item1]] [] = ([positiveResult0], 1)"
  by (simp add: processBatch_def batch_try_def shortArrayEnv_def scriptedEnv_def entryAt_def
      batchItemResult_positive92)

lemma threeItem_exception:
  "chunkException threeItemEnv sentimentIntent 1 ([[item0], [item1], [item2]] ! 1) = Some (Error ''Network connection lost'')"
  by (simp add: chunkException_def threeItemEnv_def scriptedEnv_def labelDataItem_try_def)


subsection \<open>Chunk failure isolation\<close>

text \<open>
  When a chunk raises an exception with message \<open>msg\<close> (the inference call rejects, the
  response has no JSON, the JSON does not parse, or building a result throws), the run
  still returns, having made one inference call per chunk.  Its results are those of the
  chunks before, then the results the failing chunk had pushed before the exception (none
  for a chunk of one item), then one fallback result per item of the failing chunk, in
  order, then the results of every later chunk, each processed with its own call.
\<close>

lemma labelDataBatch_continues_after_exception:
  assumes "splitBatches items batchSize 0 = Some batches"
    and "k < length batches"
    and "chunkException e intent k (batches ! k) = Some (Error msg)"
  shows "\<exists>out calls.
           labelDataBatch items intent e batchSize clk = Some (out, calls) \<and>
           calls = length batches \<and>
           results out =
             fst (processBatches e intent 0 (take k batches) []) @
             pushedBefore e k (batches ! k) @ chunkFallback (Error msg) (batches ! k) @
             fst (processBatches e intent (Suc k) (drop (Suc k) batches) []) \<and>
           length (chunkFallback (Error msg) (batches ! k)) = length (batches ! k) \<and>
           (\<forall>j < length (batches ! k).
              isFallbackFor msg (batches ! k ! j) (chunkFallback (Error msg) (batches ! k) ! j))"
proof -
  obtain rs calls where pb: "processBatches e intent 0 batches [] = (rs, calls)"
    by (cases "processBatches e intent 0 batches []")
  have calls: "calls = length batches"
    using processBatches_acc[of e intent 0 batches "[]"] pb by simp
  have rs: "rs = fst (processBatches e intent 0 (take k batches) []) @
             pushedBefore e k (batches ! k) @ chunkFallback (Error msg) (batches ! k) @
             fst (processBatches e intent (Suc k) (drop (Suc k) batches) [])"
    using processBatches_split[OF assms(2), of e intent] processBatch_raises[OF assms(3)] pb
    by (simp add: pushedBefore_def)
  have "labelDataBatch items intent e batchSize clk =
          Some (\<lparr> results = rs, completedAt = endIso clk, processingTimeMs = endMs clk - startMs clk,
                  totalItems = length items, reviewNeeded = length (filter needsReview rs) \<rparr>, calls)"
    using assms(1) pb by (simp add: labelDataBatch_def)
  then show ?thesis
    using calls rs chunkFallback_aligned[of msg "batches ! k"] by auto
qed

text \<open>
  Three items in chunks of one, where the second call is rejected: the first and the third
  item are labelled, the second gets the fallback.
\<close>

lemma labelDataBatch_continues_after_rejected_call:
  "splitBatches [item0, item1, item2] 1 0 = Some [[item0], [item1], [item2]] \<and>
   chunkException threeItemEnv sentimentIntent 1 ([[item0], [item1], [item2]] ! 1)
     = Some (Error ''Network connection lost'') \<and>
   (\<exists>out calls.
      labelDataBatch [item0, item1, item2] sentimentIntent threeItemEnv 1 clock0 = Some (out, calls) \<and>
      calls = 3 \<and>
      map itemId (results out) = [''item-0'', ''item-1'', ''item-2''] \<and>
      map label (results out) =
        [''Sentiment: Positive'', ''Error: Needs Manual Review'', ''Sentiment: Positive''] \<and>
      map needsReview (results out) = [False, True, False] \<and>
      isFallbackFor ''Network connection lost'' item1 (results out ! 1))"
proof -
  have k: "1 < length [[item0], [item1], [item2]]" by simp
  from labelDataBatch_continues_after_exception[OF splitBatches_three k threeItem_exception, of clock0]
  obtain out calls where out:
    "labelDataBatch [item0, item1, item2] sentimentIntent threeItemEnv 1 clock0 = Some (out, calls)"
    "calls = length [[item0], [item1], [item2]]"
    "results out =
        fst (processBatches threeItemEnv sentimentIntent 0 (take 1 [[item0], [item1], [item2]]) []) @
        pushedBefore threeItemEnv 1 ([[item0], [item1], [item2]] ! 1) @
        chunkFallback (Error ''Network connection lost'') ([[item0], [item1], [item2]] ! 1) @
        fst (processBatches threeItemEnv sentimentIntent (Suc 1) (drop (Suc 1) [[item0], [item1], [item2]]) [])"
    "\<forall>j < length ([[item0], [item1], [item2]] ! 1).
        isFallbackFor ''Network connection lost'' ([[item0], [item1], [item2]] ! 1 ! j)
          (chunkFallback (Error ''Network connection lost'') ([[item0], [item1], [item2]] ! 1) ! j)"
    by blast
  have first: "fst (processBatches threeItemEnv sentimentIntent 0 (take 1 [[item0], [item1], [item2]]) [])
                 = [labelDataItem item0 sentimentIntent (Parsed positive92)]"
    by (simp add: processBatch_def threeItemEnv_def scriptedEnv_def)
  have third: "fst (processBatches threeItemEnv sentimentIntent (Suc 1) (drop (Suc 1) [[item0], [item1], [item2]]) [])
                 = [labelDataItem item2 sentimentIntent (Parsed positive92)]"
    by (simp add: processBatch_def threeItemEnv_def scriptedEnv_def)
  have labelled: "labelDataItem item sentimentIntent (Parsed positive92) =
      \<lparr> itemId = item_id item, label = ''Sentiment: Positive'', confidence = 92,
        reasoning = ''The review praises the product.'', uncertaintyExplanation = None,
        needsReview = False, needsLLMReasoning = False \<rparr>" for item
    by (simp add: labelDataItem_def labelDataItem_try_def positive92_def reasoningOf_def confidenceOf_def
        labelOf_def repairLabel_def trim_def isWhiteSpace_def)
  have rs: "results out =
      [labelDataItem item0 sentimentIntent (Parsed positive92),
       itemErrorResult (Error ''Network connection lost'') item1,
       labelDataItem item2 sentimentIntent (Parsed positive92)]"
    using out(3) first third by (simp add: pushedBefore_def chunkFallback_def)
  have fb: "isFallbackFor ''Network connection lost'' item1 (results out ! 1)"
    using out(4) rs by (simp add: chunkFallback_def)
  have ids: "map itemId (results out) = [''item-0'', ''item-1'', ''item-2'']"
    unfolding rs by (simp add: labelled itemErrorResult_def item0_def item1_def item2_def)
  have labels: "map label (results out) =
        [''Sentiment: Positive'', ''Error: Needs Manual Review'', ''Sentiment: Positive'']"
    unfolding rs by (simp add: labelled itemErrorResult_def)
  have flags: "map needsReview (results out) = [False, True, False]"
    unfolding rs by (simp add: labelled itemErrorResult_def)
  have calls: "calls = 3" using out(2) by simp
  have "labelDataBatch [item0, item1, item2] sentimentIntent threeItemEnv 1 clock0 = Some (out, calls) \<and>
      calls = 3 \<and>
      map itemId (results out) = [''item-0'', ''item-1'', ''item-2''] \<and>
      map label (results out) =
        [''Sentiment: Positive'', ''Error: Needs Manual Review'', ''Sentiment: Positive''] \<and>
      map needsReview (results out) = [False, True, False] \<and>
      isFallbackFor ''Network connection lost'' item1 (results out ! 1)"
    by (intro conjI out(1) calls ids labels flags fb)
  then have "\<exists>out calls.
      labelDataBatch [item0, item1, item2] sentimentIntent threeItemEnv 1 clock0 = Some (out, calls) \<and>
      calls = 3 \<and>
      map itemId (results out) = [''item-0'', ''item-1'', ''item-2''] \<and>
      map label (results out) =
        [''Sentiment: Positive'', ''Error: Needs Manual Review'', ''Sentiment: Positive''] \<and>
      map needsReview (results out) = [False, True, False] \<and>
      isFallbackFor ''Network connection lost'' item1 (results out ! 1)"
    by (intro exI)
  with splitBatches_three threeItem_exception show ?thesis
    by (intro conjI)
qed

lemma batchItemResult_validBug:
  "batchItemResult item (JObj validBug) =
     Inr \<lparr> itemId = item_id item, label = ''Issue Type: Bug'', confidence = 90,
           reasoning = ''The ticket reports a crash.'', uncertaintyExplanation = None,
           needsReview = False, needsLLMReasoning = False \<rparr>"
  by (simp add: batchItemResult_def validBug_def reasoningOf_def confidenceOf_def labelOf_def
      repairLabel_valid trim_def isWhiteSpace_def)

lemma batchItemResult_numericReasoning:
  "batchItemResult item (JObj numericReasoning) = Inl (Error ''reasoning.trim is not a function'')"
  by (simp add: batchItemResult_def numericReasoning_def reasoningOf_def)

lemma batchItemResult_echoedBug:
  "batchItemResult item (JObj echoedBug) = Inl (Error ''labelCategories is not defined'')"
  by (simp add: batchItemResult_def echoedBug_def reasoningOf_def confidenceOf_def labelOf_def
      repairLabel_echoed trim_def isWhiteSpace_def)

lemma labelDataItem_validBug:
  "labelDataItem item issueIntent (Parsed validBug) =
     \<lparr> itemId = item_id item, label = ''Issue Type: Bug'', confidence = 90,
       reasoning = ''The ticket reports a crash.'', uncertaintyExplanation = None,
       needsReview = False, needsLLMReasoning = False \<rparr>"
  by (simp add: labelDataItem_def labelDataItem_try_def validBug_def labelOf_def repairLabel_valid
      reasoningOf_def confidenceOf_def trim_def isWhiteSpace_def)

lemma partialChunk_run:
  "processBatches partialChunkEnv issueIntent 0 [[item0, item1], [item2]] [] =
     ([\<lparr> itemId = item_id item0, label = ''Issue Type: Bug'', confidence = 90,
         reasoning = ''The ticket reports a crash.'', uncertaintyExplanation = None,
         needsReview = False, needsLLMReasoning = False \<rparr>,
       batchErrorResult (Error ''reasoning.trim is not a function'') item0,
       batchErrorResult (Error ''reasoning.trim is not a function'') item1,
       \<lparr> itemId = item_id item2, label = ''Issue Type: Bug'', confidence = 90,
         reasoning = ''The ticket reports a crash.'', uncertaintyExplanation = None,
         needsReview = False, needsLLMReasoning = False \<rparr>], 2)"
  by (simp add: processBatch_def batch_try_def partialChunkEnv_def scriptedEnv_def entryAt_def
      batchItemResult_validBug batchItemResult_numericReasoning labelDataItem_validBug)

lemma echoedChunk_run:
  "processBatches echoedChunkEnv issueIntent 0 [[item0, item1]] [] =
     ([\<lparr> itemId = item_id item0, label = ''Issue Type: Bug'', confidence = 90,
         reasoning = ''The ticket reports a crash.'', uncertaintyExplanation = None,
         needsReview = False, needsLLMReasoning = False \<rparr>,
       batchErrorResult (Error ''labelCategories is not defined'') item0,
       batchErrorResult (Error ''labelCategories is not defined'') item1], 1)"
  by (simp add: processBatch_def batch_try_def echoedChunkEnv_def scriptedEnv_def entryAt_def
      batchItemResult_validBug batchItemResult_echoedBug)

lemma splitBatches_three_by_two:
  "splitBatches [item0, item1, item2] 2 0 = Some [[item0, item1], [item2]]"
  by (simp add: splitBatches.simps)

text \<open>
  Claim C4.  The \<^verbatim>\<open>catch\<close> block of \<open>labelDataBatch\<close> pushes one fallback result per item
  of the failing chunk, and the later chunks are processed, but the fallbacks are not
  substituted for the chunk's results: what \<^verbatim>\<open>forEach\<close> had pushed before the exception
  stays in \<^verbatim>\<open>results\<close>.  Three items in chunks of two: the response to the first chunk
  has a valid first entry and a second entry whose \<^verbatim>\<open>reasoning\<close> is the number 7, so
  \<^verbatim>\<open>reasoning.trim()\<close> throws a TypeError at the second item.  The run returns four results
  for three items: \<^verbatim>\<open>item-0\<close> has its label \<^verbatim>\<open>Issue Type: Bug\<close> and a fallback as well,
  \<^verbatim>\<open>item-1\<close> has a fallback, and \<^verbatim>\<open>item-2\<close> is labelled by the call of its own chunk.
  The same happens with two items in one chunk when the second entry echoes its label as
  \<^verbatim>\<open>Bug: Bug\<close>, through the unbound identifier of the repair branch.
\<close>

theorem chunk_failure_keeps_partial_results:
  "labelDataBatch [item0, item1, item2] issueIntent partialChunkEnv 2 clock0 =
     Some (\<lparr> results =
               [\<lparr> itemId = ''item-0'', label = ''Issue Type: Bug'', confidence = 90,
                   reasoning = ''The ticket reports a crash.'', uncertaintyExplanation = None,
                   needsReview = False, needsLLMReasoning = False \<rparr>,
                \<lparr> itemId = ''item-0'', label = ''Error: Needs Manual Review'', confidence = 0,
                   reasoning = ''The AI model encountered an error while processing this batch of items. Error details: reasoning.trim is not a function. Please assign a label manually.'',
                   uncertaintyExplanation =
                     Some (JStr ''This item requires manual labeling due to batch processing errors.''),
                   needsReview = True, needsLLMReasoning = False \<rparr>,
                \<lparr> itemId = ''item-1'', label = ''Error: Needs Manual Review'', confidence = 0,
                   reasoning = ''The AI model encountered an error while processing this batch of items. Error details: reasoning.trim is not a function. Please assign a label manually.'',
                   uncertaintyExplanation =
                     Some (JStr ''This item requires manual labeling due to batch processing errors.''),
                   needsReview = True, needsLLMReasoning = False \<rparr>,
                \<lparr> itemId = ''item-2'', label = ''Issue Type: Bug'', confidence = 90,
                   reasoning = ''The ticket reports a crash.'', uncertaintyExplanation = None,
                   needsReview = False, needsLLMReasoning = False \<rparr>],
             completedAt = ''2025-01-01T00:00:00.000Z'', processingTimeMs = 750,
             totalItems = 3, reviewNeeded = 2 \<rparr>, 2) \<and>
   labelDataBatch [item0, item1] issueIntent echoedChunkEnv 5 clock0 =
     Some (\<lparr> results =
               [\<lparr> itemId = ''item-0'', label = ''Issue Type: Bug'', confidence = 90,
                   reasoning = ''The ticket reports a crash.'', uncertaintyExplanation = None,
                   needsReview = False, needsLLMReasoning = False \<rparr>,
                \<lparr> itemId = ''item-0'', label = ''Error: Needs Manual Review'', confidence = 0,
                   reasoning = ''The AI model encountered an error while processing this batch of items. Error details: labelCategories is not defined. Please assign a label manually.'',
                   uncertaintyExplanation =
                     Some (JStr ''This item requires manual labeling due to batch processing errors.''),
                   needsReview = True, needsLLMReasoning = False \<rparr>,
                \<lparr> itemId = ''item-1'', label = ''Error: Needs Manual Review'', confidence = 0,
                   reasoning = ''The AI model encountered an error while processing this batch of items. Error details: labelCategories is not defined. Please assign a label manually.'',
                   uncertaintyExplanation =
                     Some (JStr ''This item requires manual labeling due to batch processing errors.''),
                   needsReview = True, needsLLMReasoning = False \<rparr>],
             completedAt = ''2025-01-01T00:00:00.000Z'', processingTimeMs = 750,
             totalItems = 2, reviewNeeded = 2 \<rparr>, 1)"
proof -
  have a: "labelDataBatch [item0, item1, item2] issueIntent partialChunkEnv 2 clock0 =
      Some (\<lparr> results = fst (processBatches partialChunkEnv issueIntent 0 [[item0, item1], [item2]] []),
              completedAt = endIso clock0, processingTimeMs = endMs clock0 - startMs clock0,
              totalItems = 3,
              reviewNeeded = length (filter needsReview
                (fst (processBatches partialChunkEnv issueIntent 0 [[item0, item1], [item2]] []))) \<rparr>,
            snd (processBatches partialChunkEnv issueIntent 0 [[item0, item1], [item2]] []))"
    by (simp add: labelDataBatch_def splitBatches_three_by_two split_beta del: processBatches.simps)
  have b: "labelDataBatch [item0, item1] issueIntent echoedChunkEnv 5 clock0 =
      Some (\<lparr> results = fst (processBatches echoedChunkEnv issueIntent 0 [[item0, item1]] []),
              completedAt = endIso clock0, processingTimeMs = endMs clock0 - startMs clock0,
              totalItems = 2,
              reviewNeeded = length (filter needsReview
                (fst (processBatches echoedChunkEnv issueIntent 0 [[item0, item1]] []))) \<rparr>,
            snd (processBatches echoedChunkEnv issueIntent 0 [[item0, item1]] []))"
    by (simp add: labelDataBatch_def splitBatches_two split_beta del: processBatches.simps)
  show ?thesis
    unfolding a b partialChunk_run echoedChunk_run
    by (simp add: batchErrorResult_def errorMessage_def item0_def item1_def item2_def clock0_def)
qed


subsection \<open>One result per item\<close>

text \<open>
  Claim C2, as stated, fails: a call that succeeds with an array shorter than its chunk
  leaves the items past the end of the array without any result.  Two items in one chunk
  (chunk size 5), a response array with one entry: the output has a result for
  \<^verbatim>\<open>item-0\<close> only.
\<close>

theorem labelDataBatch_short_array_drops_item:
  "map item_id [item0, item1] = [''item-0'', ''item-1''] \<and>
   labelDataBatch [item0, item1] sentimentIntent shortArrayEnv 5 clock0 =
     Some (\<lparr> results = [positiveResult0], completedAt = ''2025-01-01T00:00:00.000Z'',
             processingTimeMs = 750, totalItems = 2, reviewNeeded = 0 \<rparr>, 1) \<and>
   map itemId [positiveResult0] = [''item-0'']"
proof -
  have "map item_id [item0, item1] = [''item-0'', ''item-1'']"
    by (simp add: item0_def item1_def)
  moreover have "labelDataBatch [item0, item1] sentimentIntent shortArrayEnv 5 clock0 =
     Some (\<lparr> results = [positiveResult0], completedAt = ''2025-01-01T00:00:00.000Z'',
             processingTimeMs = 750, totalItems = 2, reviewNeeded = 0 \<rparr>, 1)"
    by (simp add: labelDataBatch_def splitBatches_two shortArray_run clock0_def positiveResult0_def
             del: processBatches.simps)
  moreover have "map itemId [positiveResult0] = [''item-0'']"
    by (simp add: positiveResult0_def)
  ultimately show ?thesis by blast
qed

text \<open>
  Claim C2, amended.  For every list of items and every positive chunk size the run
  returns, and every item of every chunk has a result with its id, unless the item sits in
  a chunk of several items whose call returned a parsed array in which the item's position
  is missing or holds a falsy value (the guard \<^verbatim>\<open>if (!result) return;\<close>).  With chunk
  size 1 every input item has a result, whatever the inference calls do.
\<close>

theorem labelDataBatch_item_coverage:
  assumes "0 < batchSize"
  shows "\<exists>out calls batches.
           splitBatches items batchSize 0 = Some batches \<and> concat batches = items \<and>
           labelDataBatch items intent e batchSize clk = Some (out, calls) \<and>
           (\<forall>k < length batches. \<forall>j < length (batches ! k).
              (\<exists>r \<in> set (results out). itemId r = item_id (batches ! k ! j)) \<or>
              (length (batches ! k) \<noteq> 1 \<and>
               (\<exists>rs. run_batch e k = Parsed rs \<and> \<not> truthy (entryAt rs j)))) \<and>
           (batchSize = 1 \<longrightarrow> (\<forall>x \<in> set items. \<exists>r \<in> set (results out). itemId r = item_id x))"
proof -
  from splitBatches_total[OF assms, of items 0] obtain batches where
    sb: "splitBatches items batchSize 0 = Some batches" and cc: "concat batches = items"
    and ne: "\<forall>b \<in> set batches. b \<noteq> [] \<and> length b \<le> batchSize"
    by auto
  obtain rs calls where pb: "processBatches e intent 0 batches [] = (rs, calls)"
    by (cases "processBatches e intent 0 batches []")
  let ?out = "\<lparr> results = rs, completedAt = endIso clk, processingTimeMs = endMs clk - startMs clk,
                  totalItems = length items, reviewNeeded = length (filter needsReview rs) \<rparr>"
  have ldb: "labelDataBatch items intent e batchSize clk = Some (?out, calls)"
    using sb pb by (simp add: labelDataBatch_def)
  have cover: "(\<exists>r \<in> set rs. itemId r = item_id (batches ! k ! j)) \<or>
              (length (batches ! k) \<noteq> 1 \<and> (\<exists>rs'. run_batch e k = Parsed rs' \<and> \<not> truthy (entryAt rs' j)))"
    if "k < length batches" "j < length (batches ! k)" for k j
  proof -
    have "set (processBatch e intent k (batches ! k) []) \<subseteq> set rs"
      using processBatches_split[OF that(1), of e intent] pb by auto
    then show ?thesis using processBatch_covers[OF that(2), of e intent k] by blast
  qed
  have one: "\<exists>r \<in> set rs. itemId r = item_id x" if "batchSize = 1" "x \<in> set items" for x
  proof -
    from that(2) cc obtain b where b: "b \<in> set batches" "x \<in> set b" by auto
    then obtain k where k: "k < length batches" "batches ! k = b" by (auto simp: in_set_conv_nth)
    from b(2) obtain j where j: "j < length b" "b ! j = x" by (auto simp: in_set_conv_nth)
    have "length b = 1" using ne b(1) that(1) by (cases b) auto
    then show ?thesis using cover[OF k(1), of j] k(2) j by auto
  qed
  show ?thesis
    using sb cc ldb cover one by (intro exI[of _ ?out] exI[of _ calls] exI[of _ batches]) simp
qed

theorem labelDataBatch_item_coverage_witness:
  "(0::nat) < 1 \<and>
   (\<exists>out calls.
      labelDataBatch [item0, item1, item2] sentimentIntent threeItemEnv 1 clock0 = Some (out, calls) \<and>
      list_all (\<lambda>x. list_ex (\<lambda>r. itemId r = item_id x) (results out)) [item0, item1, item2])"
proof -
  from labelDataBatch_item_coverage[of 1 "[item0, item1, item2]" sentimentIntent threeItemEnv clock0]
  obtain out calls where
    "labelDataBatch [item0, item1, item2] sentimentIntent threeItemEnv 1 clock0 = Some (out, calls)"
    "\<forall>x \<in> set [item0, item1, item2]. \<exists>r \<in> set (results out). itemId r = item_id x"
    by auto
  then show ?thesis by (auto simp: list_ex_iff)
qed


subsection \<open>Label repair\<close>

text \<open>
  Claim C1.  The repair is reached for a label whose two trimmed parts are equal, and there
  it evaluates the unbound identifier \<^verbatim>\<open>labelCategories\<close>: for the label
  \<^verbatim>\<open>Bug: Bug\<close> and the categories \<^verbatim>\<open>["Issue Type: Bug | Feature"]\<close> the repair throws,
  \<open>labelDataItem\<close> returns the fallback label \<^verbatim>\<open>Error: Needs Manual Review\<close> instead of
  \<^verbatim>\<open>Issue Type: Bug\<close>, and in a batch the whole chunk falls back.  The label
  \<^verbatim>\<open>Issue Type: Bug\<close> is returned unchanged.
\<close>

theorem repair_of_echoed_label_throws:
  "repairLabel ''Bug: Bug'' = Inl (Error ''labelCategories is not defined'') \<and>
   apiLabelCategories issueIntent = [''Issue Type: Bug | Feature''] \<and>
   label (labelDataItem item0 issueIntent (Parsed echoedBug)) = ''Error: Needs Manual Review'' \<and>
   map label (processBatch (scriptedEnv [] [Parsed [JObj validBug, JObj echoedBug]]) issueIntent 0
                [item0, item1] [])
     = [''Issue Type: Bug'', ''Error: Needs Manual Review'', ''Error: Needs Manual Review''] \<and>
   repairLabel ''Issue Type: Bug'' = Inr ''Issue Type: Bug'' \<and>
   label (labelDataItem item0 issueIntent (Parsed validBug)) = ''Issue Type: Bug''"
proof -
  have valid: "batchItemResult item0 (JObj validBug) =
      Inr \<lparr> itemId = ''item-0'', label = ''Issue Type: Bug'', confidence = 90,
            reasoning = ''The ticket reports a crash.'', uncertaintyExplanation = None,
            needsReview = False, needsLLMReasoning = False \<rparr>"
    by (simp add: batchItemResult_def validBug_def reasoningOf_def confidenceOf_def labelOf_def
        repairLabel_valid trim_def isWhiteSpace_def item0_def)
  have echoed: "batchItemResult item1 (JObj echoedBug) = Inl (Error ''labelCategories is not defined'')"
    by (simp add: batchItemResult_def echoedBug_def reasoningOf_def confidenceOf_def labelOf_def
        repairLabel_echoed trim_def isWhiteSpace_def)
  have "map label (processBatch (scriptedEnv [] [Parsed [JObj validBug, JObj echoedBug]]) issueIntent 0
                [item0, item1] [])
     = [''Issue Type: Bug'', ''Error: Needs Manual Review'', ''Error: Needs Manual Review'']"
    by (simp add: processBatch_def batch_try_def scriptedEnv_def entryAt_def valid echoed
        batchErrorResult_def)
  then show ?thesis
    using repairLabel_echoed repairLabel_valid labelDataItem_echoed_label labelDataItem_valid
    by (simp add: issueIntent_def)
qed


section \<open>Properties of the request handler\<close>

lemma getProp_Some_not_null: "getProp b k = Some v \<Longrightarrow> b \<noteq> JNull"
  by (cases b) auto

lemma handle_missing_field:
  assumes "reqBody \<noteq> JNull" and "getProp reqBody ''data'' = None \<or> getProp reqBody ''intent'' = None"
  shows "handleLabelingRequest (Inr reqBody) e clk =
           Some (badRequest ''Missing required fields: data and intent'', 0)"
  using assms by (auto simp: handleLabelingRequest_def Let_def)

lemma handle_bad_length:
  assumes "getProp reqBody ''data'' = Some (JArr xs)" and "length xs = 0 \<or> 100 < length xs"
  shows "handleLabelingRequest (Inr reqBody) e clk =
           Some (badRequest (if truthy (getProp reqBody ''intent'')
                             then ''Data must be an array with 1-100 items''
                             else ''Missing required fields: data and intent''), 0)"
  using assms getProp_Some_not_null[OF assms(1)]
  by (auto simp: handleLabelingRequest_def Let_def isArray_def elements_def)

lemma handle_no_categories:
  assumes "getProp reqBody ''intent'' = Some iv" and "getProp iv ''labelCategories'' = Some (JArr [])"
  shows "\<exists>msg. handleLabelingRequest (Inr reqBody) e clk = Some (badRequest msg, 0) \<and> msg \<noteq> []"
proof -
  have nn: "reqBody \<noteq> JNull" using assms(1) by (rule getProp_Some_not_null)
  have tr: "truthy (Some iv)" using assms(2) by (cases iv) auto
  show ?thesis
    using assms nn tr
    by (auto simp: handleLabelingRequest_def Let_def isArray_def elements_def)
qed

text \<open>
  A request that passes validation and has no \<^verbatim>\<open>null\<close> among its items is answered with
  status 200 after at least one inference call (one per chunk).
\<close>

lemma handle_accepts:
  assumes "getProp reqBody ''data'' = Some (JArr xs)" "0 < length xs" "length xs \<le> 100"
    and "getProp reqBody ''intent'' = Some iv" "truthy (getProp iv ''datasetDescription'')"
    and "getProp iv ''labelCategories'' = Some (JArr cs)" "cs \<noteq> []"
    and "JNull \<notin> set xs"
  shows "\<exists>result calls. handleLabelingRequest (Inr reqBody) e clk
            = Some (\<lparr> status = 200, body = ResultBody result \<rparr>, calls) \<and> 0 < calls"
proof -
  have nn: "reqBody \<noteq> JNull" using assms(1) by (rule getProp_Some_not_null)
  have tr: "truthy (Some iv)" using assms(6) by (cases iv) auto
  let ?bs = "if length xs \<le> 5 then 1 else (5::nat)"
  have pos: "0 < ?bs" by simp
  from splitBatches_total[OF pos, of "map dataItemOf xs" 0] obtain batches where
    sb: "splitBatches (map dataItemOf xs) ?bs 0 = Some batches" and cc: "concat batches = map dataItemOf xs"
    by auto
  have ne: "batches \<noteq> []" using cc assms(2) by auto
  obtain rs calls where pb: "processBatches e (apiIntentOf iv) 0 batches [] = (rs, calls)"
    by (cases "processBatches e (apiIntentOf iv) 0 batches []")
  have calls: "calls = length batches" using processBatches_acc[of e "apiIntentOf iv" 0 batches "[]"] pb by simp
  have "labelDataBatch (map dataItemOf xs) (apiIntentOf iv) e ?bs clk =
          Some (\<lparr> results = rs, completedAt = endIso clk, processingTimeMs = endMs clk - startMs clk,
                  totalItems = length (map dataItemOf xs), reviewNeeded = length (filter needsReview rs) \<rparr>, calls)"
    using sb pb by (simp add: labelDataBatch_def)
  then show ?thesis
    using assms nn tr calls ne
    by (auto simp: handleLabelingRequest_def Let_def isArray_def elements_def)
qed

text \<open>
  Claim C9.  A request whose body has a \<^verbatim>\<open>data\<close> array of length 0 or of length above 100
  (so 101), or whose \<^verbatim>\<open>intent\<close> has an empty \<^verbatim>\<open>labelCategories\<close> array, or whose body
  lacks the \<^verbatim>\<open>data\<close> or the \<^verbatim>\<open>intent\<close> field, is answered with status 400 and a
  non-empty error message, and the handler issues no inference call.
\<close>

theorem request_validation_rejects:
  assumes "reqBody \<noteq> JNull"
    and "(\<exists>xs. getProp reqBody ''data'' = Some (JArr xs) \<and> (length xs = 0 \<or> 100 < length xs)) \<or>
         (\<exists>iv. getProp reqBody ''intent'' = Some iv \<and> getProp iv ''labelCategories'' = Some (JArr [])) \<or>
         getProp reqBody ''data'' = None \<or> getProp reqBody ''intent'' = None"
  shows "\<exists>msg. handleLabelingRequest (Inr reqBody) e clk = Some (\<lparr> status = 400, body = ErrorBody msg \<rparr>, 0) \<and>
               msg \<noteq> []"
proof -
  have len: "\<exists>msg. handleLabelingRequest (Inr reqBody) e clk = Some (badRequest msg, 0) \<and> msg \<noteq> []"
    if "\<exists>xs. getProp reqBody ''data'' = Some (JArr xs) \<and> (length xs = 0 \<or> 100 < length xs)"
  proof -
    from that obtain xs where xs: "getProp reqBody ''data'' = Some (JArr xs)" "length xs = 0 \<or> 100 < length xs"
      by auto
    from handle_bad_length[OF xs, of e clk] show ?thesis by auto
  qed
  have cats: "\<exists>msg. handleLabelingRequest (Inr reqBody) e clk = Some (badRequest msg, 0) \<and> msg \<noteq> []"
    if "\<exists>iv. getProp reqBody ''intent'' = Some iv \<and> getProp iv ''labelCategories'' = Some (JArr [])"
  proof -
    from that obtain iv where iv: "getProp reqBody ''intent'' = Some iv" "getProp iv ''labelCategories'' = Some (JArr [])"
      by auto
    from handle_no_categories[OF iv, of e clk] show ?thesis .
  qed
  have missing: "\<exists>msg. handleLabelingRequest (Inr reqBody) e clk = Some (badRequest msg, 0) \<and> msg \<noteq> []"
    if "getProp reqBody ''data'' = None \<or> getProp reqBody ''intent'' = None"
    using handle_missing_field[OF assms(1) that, of e clk] by auto
  have "\<exists>msg. handleLabelingRequest (Inr reqBody) e clk = Some (badRequest msg, 0) \<and> msg \<noteq> []"
    using assms(2) len cats missing by argo
  then show ?thesis by (simp add: badRequest_def)
qed

theorem request_validation_rejects_witness:
  "(\<exists>msg. handleLabelingRequest (Inr emptyDataRequest) threeItemEnv clock0
            = Some (\<lparr> status = 400, body = ErrorBody msg \<rparr>, 0) \<and> msg \<noteq> []) \<and>
   (\<exists>msg. handleLabelingRequest (Inr oversizedRequest) threeItemEnv clock0
            = Some (\<lparr> status = 400, body = ErrorBody msg \<rparr>, 0) \<and> msg \<noteq> []) \<and>
   (\<exists>msg. handleLabelingRequest (Inr noCategoriesRequest) threeItemEnv clock0
            = Some (\<lparr> status = 400, body = ErrorBody msg \<rparr>, 0) \<and> msg \<noteq> []) \<and>
   (\<exists>msg. handleLabelingRequest (Inr noIntentRequest) threeItemEnv clock0
            = Some (\<lparr> status = 400, body = ErrorBody msg \<rparr>, 0) \<and> msg \<noteq> [])"
proof -
  have a: "emptyDataRequest \<noteq> JNull" "oversizedRequest \<noteq> JNull" "noCategoriesRequest \<noteq> JNull"
    "noIntentRequest \<noteq> JNull"
    by (simp_all add: emptyDataRequest_def oversizedRequest_def noCategoriesRequest_def noIntentRequest_def)
  have e: "getProp emptyDataRequest ''data'' = Some (JArr []) \<and> (length ([] :: json list) = 0 \<or> 100 < length ([] :: json list))"
    by (simp add: emptyDataRequest_def)
  have o: "getProp oversizedRequest ''data'' = Some (JArr (replicate 101 itemJson)) \<and>
           (length (replicate 101 itemJson) = 0 \<or> 100 < length (replicate 101 itemJson))"
    by (simp add: oversizedRequest_def)
  have c: "getProp noCategoriesRequest ''intent'' =
             Some (JObj [(''datasetDescription'', JStr ''Product reviews''), (''labelCategories'', JArr [])]) \<and>
           getProp (JObj [(''datasetDescription'', JStr ''Product reviews''), (''labelCategories'', JArr [])])
             ''labelCategories'' = Some (JArr [])"
    by (simp add: noCategoriesRequest_def)
  have n: "getProp noIntentRequest ''intent'' = None"
    by (simp add: noIntentRequest_def)
  show ?thesis
    using request_validation_rejects[OF a(1), of threeItemEnv clock0]
          request_validation_rejects[OF a(2), of threeItemEnv clock0]
          request_validation_rejects[OF a(3), of threeItemEnv clock0]
          request_validation_rejects[OF a(4), of threeItemEnv clock0]
          e o c n
    by blast
qed


section \<open>Properties of the client hook\<close>

subsection \<open>The review count\<close>

lemma labelDataItem_positive92: "labelDataItem item0 intent (Parsed positive92) = positiveResult0"
  by (simp add: labelDataItem_def labelDataItem_try_def positive92_def reasoningOf_def confidenceOf_def
      labelOf_def repairLabel_def trim_def isWhiteSpace_def item0_def positiveResult0_def)

lemma splitBatches_one: "splitBatches [item0] 1 0 = Some [[item0]]"
  by (simp add: splitBatches.simps)

lemma positive_run: "labelDataBatch [item0] twoCategoryApiIntent positiveEnv 1 clock0 = Some (serverOut, 1)"
proof -
  have "processBatches positiveEnv twoCategoryApiIntent 0 [[item0]] [] = ([positiveResult0], 1)"
    by (simp add: processBatch_def positiveEnv_def scriptedEnv_def labelDataItem_positive92)
  then show ?thesis
    unfolding labelDataBatch_def splitBatches_one
    by (simp add: serverOut_def clock0_def positiveResult0_def del: processBatches.simps)
qed

lemma labelType_positive: "labelType positiveResult0 = ''Sentiment''"
  by (simp add: labelType_def positiveResult0_def trim_def isWhiteSpace_def)

lemma groupByItem_single: "groupByItem [r] = [(itemId r, [r])]"
  by (simp add: groupByItem_def groupStep_def)

lemma postProcess_positive:
  "postProcessResults [positiveResult0] twoCategoryIntent = [positiveResult0, urgencyPlaceholder]"
proof -
  have id0: "itemId positiveResult0 = ''item-0''" by (simp add: positiveResult0_def)
  have used: "usedLabelTypes [positiveResult0] = {''Sentiment''}"
    by (simp add: usedLabelTypes_def labelType_positive)
  show ?thesis
    by (simp add: postProcessResults_def groupByItem_single enhanceItem_def used id0
        twoCategoryIntent_def addUnused_def sentimentCategory_def urgencyCategory_def
        urgencyPlaceholder_def)
qed

lemma urgencyPlaceholder_fields:
  "itemId urgencyPlaceholder = ''item-0''" "label urgencyPlaceholder = ''Urgency: High''"
  "confidence urgencyPlaceholder = 0" "needsReview urgencyPlaceholder" "needsLLMReasoning urgencyPlaceholder"
  by (simp_all add: urgencyPlaceholder_def placeholder_def urgencyCategory_def)

lemma positive_fields:
  "itemId positiveResult0 = ''item-0''" "label positiveResult0 = ''Sentiment: Positive''"
  "confidence positiveResult0 = 92" "\<not> needsReview positiveResult0" "\<not> needsLLMReasoning positiveResult0"
  by (simp_all add: positiveResult0_def)

lemma itemsToProcess_positive:
  "itemsToProcess [positiveResult0, urgencyPlaceholder] [item0] = [(''item-0'', item0, [(1, ''Urgency: High'')])]"
  by (simp add: itemsToProcess_def positive_fields urgencyPlaceholder_fields collectStep_def item0_def)

lemma backfill_confident:
  "generateReasoningForLabels [positiveResult0, urgencyPlaceholder] twoCategoryIntent [item0] confidentBackfill
     = [positiveResult0, urgency85]"
  by (simp add: generateReasoningForLabels_def positive_fields urgencyPlaceholder_fields
      itemsToProcess_positive confidentBackfill_def successStep_def entryTruthy_def applyReasoning_def)
     (simp add: urgencyPlaceholder_def placeholder_def urgencyCategory_def urgency85_def)

lemma labelData_confident:
  "labelData [item0] twoCategoryIntent (FetchOk serverOut) confidentBackfill 900
     = Some (serverOut \<lparr> results := [positiveResult0, urgency85], processingTimeMs := 900 \<rparr>)"
  by (simp add: labelData_def serverOut_def postProcess_positive positive_fields
      urgencyPlaceholder_fields backfill_confident)


lemma updateLabel_reviewNeeded:
  assumes "updateLabel iid newLabel (Some res) = Some res'"
  shows "reviewNeeded res' = length (filter needsReview (results res'))"
  using assms by (auto simp: updateLabel_def Let_def)

text \<open>
  Claim C3, as stated, fails.  One item, two declared categories; the server labels the
  item \<^verbatim>\<open>Sentiment: Positive\<close> with confidence 92, the enhancer adds the placeholder
  \<^verbatim>\<open>Urgency: High\<close>, and the backfill answers with confidence 85, which leaves the
  label flagged for review (\<^verbatim>\<open>confidence < 70 || previous needsReview\<close>).  After the
  human update of the first label, \<open>updateLabel\<close> recomputes \<open>reviewNeeded\<close> as 1,
  while no result has a confidence below 70.
\<close>

theorem reviewNeeded_differs_from_low_confidence_count:
  "labelDataBatch [item0] twoCategoryApiIntent positiveEnv 1 clock0 = Some (serverOut, 1) \<and>
   labelData [item0] twoCategoryIntent (FetchOk serverOut) confidentBackfill 900
     = Some (serverOut \<lparr> results := [positiveResult0, urgency85], processingTimeMs := 900 \<rparr>) \<and>
   updateLabel ''item-0'' ''Sentiment: Positive''
       (Some (serverOut \<lparr> results := [positiveResult0, urgency85], processingTimeMs := 900 \<rparr>))
     = Some (serverOut \<lparr> results := [positiveVerified, urgency85], processingTimeMs := 900,
                           reviewNeeded := 1 \<rparr>) \<and>
   length (filter (\<lambda>r. confidence r < 70) [positiveVerified, urgency85]) = 0"
proof -
  have "updateLabel ''item-0'' ''Sentiment: Positive''
       (Some (serverOut \<lparr> results := [positiveResult0, urgency85], processingTimeMs := 900 \<rparr>))
     = Some (serverOut \<lparr> results := [positiveVerified, urgency85], processingTimeMs := 900,
                           reviewNeeded := 1 \<rparr>)"
    by (simp add: updateLabel_def positive_fields positiveVerified_def urgency85_def serverOut_def)
  moreover have "length (filter (\<lambda>r. confidence r < 70) [positiveVerified, urgency85]) = 0"
    by (simp add: positiveVerified_def urgency85_def)
  ultimately show ?thesis using positive_run labelData_confident by blast
qed

text \<open>
  Claim C3, amended.  \<open>reviewNeeded\<close> is the number of results whose \<open>needsReview\<close>
  flag is set: so \<open>labelDataBatch\<close> computes it over its results, where it is also the
  number of results with a confidence below 70, and so \<open>updateLabel\<close> recomputes it
  over the updated list after a human label update.
\<close>

theorem reviewNeeded_counts_review_flags:
  "(labelDataBatch items intent e batchSize clk = Some (out, calls) \<longrightarrow>
      reviewNeeded out = length (filter needsReview (results out)) \<and>
      reviewNeeded out = length (filter (\<lambda>r. confidence r < 70) (results out))) \<and>
   (updateLabel iid newLabel (Some res) = Some res' \<longrightarrow>
      reviewNeeded res' = length (filter needsReview (results res')))"
  using labelDataBatch_reviewNeeded updateLabel_reviewNeeded by blast

theorem reviewNeeded_counts_review_flags_witness:
  "labelDataBatch [item0] twoCategoryApiIntent positiveEnv 1 clock0 = Some (serverOut, 1) \<and>
   reviewNeeded serverOut = length (filter needsReview (results serverOut)) \<and>
   reviewNeeded serverOut = length (filter (\<lambda>r. confidence r < 70) (results serverOut)) \<and>
   updateLabel ''item-0'' ''Sentiment: Positive'' (Some serverOut)
     = Some (serverOut \<lparr> results := [positiveVerified] \<rparr>) \<and>
   reviewNeeded (serverOut \<lparr> results := [positiveVerified] \<rparr>)
     = length (filter needsReview (results (serverOut \<lparr> results := [positiveVerified] \<rparr>)))"
proof -
  have upd: "updateLabel ''item-0'' ''Sentiment: Positive'' (Some serverOut)
     = Some (serverOut \<lparr> results := [positiveVerified] \<rparr>)"
    by (simp add: updateLabel_def serverOut_def positive_fields positiveVerified_def)
  from reviewNeeded_counts_review_flags[of "[item0]" twoCategoryApiIntent positiveEnv 1 clock0
         serverOut 1 "''item-0''" "''Sentiment: Positive''" serverOut
         "serverOut \<lparr> results := [positiveVerified] \<rparr>"]
  show ?thesis using positive_run upd by blast
qed


subsection \<open>The CSV export\<close>

lemma dquote_neq_newline: "dquote \<noteq> newline"
  by (simp add: dquote_def newline_def)

lemma scan_plain:
  "dquote \<notin> set t \<Longrightarrow> newline \<notin> set t \<Longrightarrow>
   csvRecordsFrom q cur (t @ rest) = csvRecordsFrom q (rev t @ cur) rest"
  by (induction t arbitrary: cur) auto

lemma scan_escaped:
  "csvRecordsFrom True cur (csvEscape s @ rest) = csvRecordsFrom True (rev (csvEscape s) @ cur) rest"
proof (induction s arbitrary: cur)
  case Nil
  show ?case by (simp add: csvEscape_def)
next
  case (Cons c s)
  have step: "csvEscape (c # s) = (if c = dquote then [dquote, dquote] else [c]) @ csvEscape s"
    by (simp add: csvEscape_def)
  show ?case
  proof (cases "c = dquote")
    case True
    have "csvRecordsFrom True cur (csvEscape (c # s) @ rest)
            = csvRecordsFrom True (dquote # dquote # cur) (csvEscape s @ rest)"
      unfolding step using True by simp
    also have "\<dots> = csvRecordsFrom True (rev (csvEscape s) @ dquote # dquote # cur) rest"
      by (rule Cons.IH)
    also have "\<dots> = csvRecordsFrom True (rev (csvEscape (c # s)) @ cur) rest"
      unfolding step using True by simp
    finally show ?thesis .
  next
    case False
    have "csvRecordsFrom True cur (csvEscape (c # s) @ rest)
            = csvRecordsFrom True (c # cur) (csvEscape s @ rest)"
      unfolding step using False by simp
    also have "\<dots> = csvRecordsFrom True (rev (csvEscape s) @ c # cur) rest"
      by (rule Cons.IH)
    also have "\<dots> = csvRecordsFrom True (rev (csvEscape (c # s)) @ cur) rest"
      unfolding step using False by simp
    finally show ?thesis .
  qed
qed

lemma scan_quoted:
  "csvRecordsFrom False cur (csvQuoted s @ rest) = csvRecordsFrom False (rev (csvQuoted s) @ cur) rest"
  using scan_escaped[of "dquote # cur" s "dquote # rest"]
  by (simp add: csvQuoted_def)

lemma digit_char_plain: "n < 10 \<Longrightarrow> digit_char n \<in> set ''0123456789''"
  unfolding digit_char_def by (rule nth_mem) simp

lemma show_nat_plain: "set (show_nat n) \<subseteq> set ''0123456789''"
proof (induction n rule: show_nat.induct)
  case (1 n)
  show ?case
  proof (cases "n < 10")
    case True
    then show ?thesis using digit_char_plain[of n] by (subst show_nat.simps) simp
  next
    case False
    have "n mod 10 < 10" by simp
    then show ?thesis using False "1.IH" digit_char_plain[of "n mod 10"]
      by (subst show_nat.simps) auto
  qed
qed

lemma show_nat_no_specials: "dquote \<notin> set (show_nat n)" "newline \<notin> set (show_nat n)"
proof -
  have d: "dquote \<notin> set ''0123456789''" "newline \<notin> set ''0123456789''"
    by (simp_all add: dquote_def newline_def)
  show "dquote \<notin> set (show_nat n)" using show_nat_plain[of n] d(1) by blast
  show "newline \<notin> set (show_nat n)" using show_nat_plain[of n] d(2) by blast
qed

lemma show_int_no_specials: "dquote \<notin> set (show_int i)" "newline \<notin> set (show_int i)"
proof -
  have m: "dquote \<noteq> CHR ''-''" "newline \<noteq> CHR ''-''" by (simp_all add: dquote_def newline_def)
  show "dquote \<notin> set (show_int i)"
    using show_nat_no_specials(1) m(1) by (cases "i < 0") (simp_all add: show_int_def)
  show "newline \<notin> set (show_int i)"
    using show_nat_no_specials(2) m(2) by (cases "i < 0") (simp_all add: show_int_def)
qed

lemma csvRow_unfold:
  "csvRow r = itemId r @ '','' @ csvQuoted (label r) @ '','' @ show_int (confidence r) @ '','' @
              csvQuoted (reasoning r) @ '','' @ (if needsReview r then ''Yes'' else ''No'')"
  by (simp add: csvRow_def)

lemma scan_row:
  assumes "dquote \<notin> set (itemId r)" "newline \<notin> set (itemId r)"
  shows "csvRecordsFrom False cur (csvRow r @ rest) = csvRecordsFrom False (rev (csvRow r) @ cur) rest"
proof -
  let ?yn = "if needsReview r then ''Yes'' else ''No''"
  have comma: "\<And>cur rest. csvRecordsFrom False cur ('','' @ rest) = csvRecordsFrom False (rev '','' @ cur) rest"
    by (simp add: dquote_def newline_def)
  have yn: "\<And>cur rest. csvRecordsFrom False cur (?yn @ rest) = csvRecordsFrom False (rev ?yn @ cur) rest"
    by (rule scan_plain) (auto simp: dquote_def newline_def)
  have num: "\<And>cur rest. csvRecordsFrom False cur (show_int (confidence r) @ rest)
               = csvRecordsFrom False (rev (show_int (confidence r)) @ cur) rest"
    by (rule scan_plain) (simp_all add: show_int_no_specials)
  have iid: "\<And>cur rest. csvRecordsFrom False cur (itemId r @ rest)
               = csvRecordsFrom False (rev (itemId r) @ cur) rest"
    by (rule scan_plain) (simp_all add: assms)
  show ?thesis
    unfolding csvRow_unfold append_assoc
    apply (subst iid)
    apply (subst comma)
    apply (subst scan_quoted)
    apply (subst comma)
    apply (subst num)
    apply (subst comma)
    apply (subst scan_quoted)
    apply (subst comma)
    apply (subst yn)
    apply (simp only: rev_append append_assoc)
    done
qed

lemma scan_rows:
  assumes "rows \<noteq> []"
    and "\<forall>row \<in> set rows. \<forall>cur rest. csvRecordsFrom False cur (row @ rest) = csvRecordsFrom False (rev row @ cur) rest"
  shows "csvRecordsFrom False [] (join [newline] rows) = rows"
  using assms
proof (induction rows)
  case Nil
  then show ?case by simp
next
  case (Cons x xs)
  have x: "csvRecordsFrom False cur (x @ rest) = csvRecordsFrom False (rev x @ cur) rest" for cur rest
    using Cons.prems(2) by simp
  show ?case
  proof (cases xs)
    case Nil
    have "csvRecordsFrom False [] (x @ []) = csvRecordsFrom False (rev x @ []) []" by (rule x)
    then show ?thesis using Nil by simp
  next
    case (Cons y ys)
    have "csvRecordsFrom False [] (x @ newline # join [newline] xs)
            = csvRecordsFrom False (rev x @ []) (newline # join [newline] xs)"
      by (rule x)
    also have "\<dots> = x # csvRecordsFrom False [] (join [newline] xs)"
      using dquote_neq_newline by auto
    also have "csvRecordsFrom False [] (join [newline] xs) = xs"
      using Cons.IH Cons.prems(2) Cons by simp
    finally show ?thesis using Cons by simp
  qed
qed

lemma header_plain: "dquote \<notin> set csvHeader" "newline \<notin> set csvHeader"
  by (auto simp: csvHeader_def dquote_def newline_def)

lemma csvRecords_export:
  assumes "results res \<noteq> []"
    and "\<forall>r \<in> set (results res). dquote \<notin> set (itemId r) \<and> newline \<notin> set (itemId r)"
  shows "csvRecords (exportToCsv (Some res)) = csvHeader # map csvRow (results res)"
proof -
  let ?rows = "map csvRow (results res)"
  have rows: "csvRecordsFrom False [] (join [newline] ?rows) = ?rows"
    by (rule scan_rows) (use assms scan_row in auto)
  have "csvRecords (exportToCsv (Some res)) = csvRecordsFrom False [] (csvHeader @ newline # join [newline] ?rows)"
    using assms(1) by (simp add: csvRecords_def exportToCsv_def)
  also have "\<dots> = csvRecordsFrom False (rev csvHeader @ []) (newline # join [newline] ?rows)"
    by (rule scan_plain) (simp_all add: header_plain)
  also have "\<dots> = csvHeader # csvRecordsFrom False [] (join [newline] ?rows)"
    using dquote_neq_newline by auto
  finally show ?thesis using rows by simp
qed

lemma split_on_absent: "d \<notin> set s \<Longrightarrow> split_on d s = [s]"
  by (induction s) (auto simp: Let_def)

lemma split_on_first: "d \<notin> set s \<Longrightarrow> split_on d (s @ d # t) = s # split_on d t"
  by (induction s) (auto simp: Let_def)

lemma lines_rows:
  assumes "rows \<noteq> []" and "\<forall>row \<in> set rows. newline \<notin> set row"
  shows "split_on newline (join [newline] rows) = rows"
  using assms
proof (induction rows)
  case Nil
  then show ?case by simp
next
  case (Cons x xs)
  show ?case
  proof (cases xs)
    case Nil
    then show ?thesis using Cons.prems by (simp add: split_on_absent)
  next
    case (Cons y ys)
    have "split_on newline (x @ newline # join [newline] xs) = x # split_on newline (join [newline] xs)"
      by (rule split_on_first) (use Cons.prems in simp)
    moreover have "split_on newline (join [newline] xs) = xs"
      using Cons.IH Cons.prems(2) Cons by simp
    ultimately show ?thesis using Cons by simp
  qed
qed

lemma csvEscape_newline: "newline \<in> set (csvEscape s) \<longleftrightarrow> newline \<in> set s"
  using dquote_neq_newline by (induction s) (auto simp: csvEscape_def)

lemma csvQuoted_newline: "newline \<in> set (csvQuoted s) \<longleftrightarrow> newline \<in> set s"
  using dquote_neq_newline by (auto simp: csvQuoted_def csvEscape_newline)

lemma yes_no_newline: "newline \<notin> set (if b then ''Yes'' else ''No'')" "newline \<notin> set '',''"
  by (auto simp: newline_def)

lemma csvRow_newline:
  "newline \<in> set (csvRow r) \<longleftrightarrow> newline \<in> set (itemId r) \<or> newline \<in> set (label r) \<or> newline \<in> set (reasoning r)"
  unfolding csvRow_unfold set_append Un_iff csvQuoted_newline
  using show_int_no_specials(2)[of "confidence r"] yes_no_newline(1)[of "needsReview r"] yes_no_newline(2)
  by blast

lemma csvLines_export:
  assumes "results res \<noteq> []"
    and "\<forall>r \<in> set (results res). newline \<notin> set (itemId r) \<and> newline \<notin> set (label r) \<and> newline \<notin> set (reasoning r)"
  shows "csvLines (exportToCsv (Some res)) = csvHeader # map csvRow (results res)"
proof -
  let ?rows = "map csvRow (results res)"
  have "split_on newline (join [newline] ?rows) = ?rows"
    by (rule lines_rows) (use assms csvRow_newline in auto)
  then show ?thesis
    using assms(1) split_on_first[of newline csvHeader "join [newline] ?rows"] header_plain(2)
    by (simp add: csvLines_def exportToCsv_def)
qed

text \<open>
  Claim C5, as stated, fails: a line feed inside the reasoning stays in the quoted field,
  so the export of one result whose reasoning has two lines is three lines long, not two.
\<close>

theorem exportToCsv_line_count_off:
  "length (results multilineState) = 1 \<and>
   csvLines (exportToCsv (Some multilineState)) =
     [''ItemId,Label,Confidence,Reasoning,NeedsReview'',
      ''item-0,'' @ [dquote] @ ''Sentiment: Positive'' @ [dquote] @ '',92,'' @ [dquote] @ ''The review praises the product.'',
      ''It also recommends it.'' @ [dquote] @ '',No''] \<and>
   length (csvLines (exportToCsv (Some multilineState))) = 3"
  by code_simp

text \<open>
  Claim C5, amended.  For a non-empty results list whose item ids contain neither a double
  quote nor a line feed, the export is the header line, a line feed, and the rows joined by
  line feeds, one row per result with the label and the reasoning double-quote-escaped.
  Read back as CSV records (a line feed between double quotes belongs to the field) it is
  the header followed by exactly one record per result, whatever the label and the
  reasoning contain; read back line by line it is so when no label and no reasoning
  contains a line feed.
\<close>

theorem exportToCsv_rows:
  assumes "results res \<noteq> []"
    and "\<forall>r \<in> set (results res). dquote \<notin> set (itemId r) \<and> newline \<notin> set (itemId r)"
  shows "exportToCsv (Some res) = csvHeader @ [newline] @ join [newline] (map csvRow (results res)) \<and>
         csvRecords (exportToCsv (Some res)) = csvHeader # map csvRow (results res) \<and>
         length (csvRecords (exportToCsv (Some res))) = length (results res) + 1 \<and>
         ((\<forall>r \<in> set (results res). newline \<notin> set (label r) \<and> newline \<notin> set (reasoning r)) \<longrightarrow>
            csvLines (exportToCsv (Some res)) = csvHeader # map csvRow (results res) \<and>
            length (csvLines (exportToCsv (Some res))) = length (results res) + 1)"
proof -
  have e: "exportToCsv (Some res) = csvHeader @ [newline] @ join [newline] (map csvRow (results res))"
    using assms(1) by (simp add: exportToCsv_def)
  have r: "csvRecords (exportToCsv (Some res)) = csvHeader # map csvRow (results res)"
    using assms by (rule csvRecords_export)
  have l: "csvLines (exportToCsv (Some res)) = csvHeader # map csvRow (results res)"
    if "\<forall>r \<in> set (results res). newline \<notin> set (label r) \<and> newline \<notin> set (reasoning r)"
    by (rule csvLines_export) (use assms that in auto)
  show ?thesis using e r l by simp
qed

theorem exportToCsv_rows_witness:
  "results multilineState \<noteq> [] \<and>
   list_all (\<lambda>r. dquote \<notin> set (itemId r) \<and> newline \<notin> set (itemId r)) (results multilineState) \<and>
   csvRecords (exportToCsv (Some multilineState)) = csvHeader # map csvRow (results multilineState) \<and>
   length (csvRecords (exportToCsv (Some multilineState))) = length (results multilineState) + 1 \<and>
   list_all (\<lambda>r. newline \<notin> set (label r) \<and> newline \<notin> set (reasoning r)) (results serverOut) \<and>
   csvLines (exportToCsv (Some serverOut)) = csvHeader # map csvRow (results serverOut) \<and>
   length (csvLines (exportToCsv (Some serverOut))) = length (results serverOut) + 1"
proof -
  have a: "results multilineState \<noteq> []" "results serverOut \<noteq> []"
    by (simp_all add: multilineState_def serverOut_def)
  have b: "\<forall>r \<in> set (results multilineState). dquote \<notin> set (itemId r) \<and> newline \<notin> set (itemId r)"
    by (simp add: multilineState_def multilineResult_def dquote_def newline_def)
  have c: "\<forall>r \<in> set (results serverOut). dquote \<notin> set (itemId r) \<and> newline \<notin> set (itemId r)"
    by (simp add: serverOut_def positiveResult0_def dquote_def newline_def)
  have d: "\<forall>r \<in> set (results serverOut). newline \<notin> set (label r) \<and> newline \<notin> set (reasoning r)"
    by (simp add: serverOut_def positiveResult0_def newline_def)
  from exportToCsv_rows[OF a(1) b]
  have 1: "csvRecords (exportToCsv (Some multilineState)) = csvHeader # map csvRow (results multilineState) \<and>
           length (csvRecords (exportToCsv (Some multilineState))) = length (results multilineState) + 1"
    by blast
  from exportToCsv_rows[OF a(2) c] d
  have 2: "csvLines (exportToCsv (Some serverOut)) = csvHeader # map csvRow (results serverOut) \<and>
           length (csvLines (exportToCsv (Some serverOut))) = length (results serverOut) + 1"
    by blast
  have 3: "list_all (\<lambda>r. dquote \<notin> set (itemId r) \<and> newline \<notin> set (itemId r)) (results multilineState)"
    using b by (simp add: list_all_iff)
  have 4: "list_all (\<lambda>r. newline \<notin> set (label r) \<and> newline \<notin> set (reasoning r)) (results serverOut)"
    using d by (simp add: list_all_iff)
  show ?thesis using a(1) 1 2 3 4 by blast
qed


subsection \<open>The coverage enhancer\<close>

lemma fold_addUnused:
  "fold (addUnused iid used) cats acc =
     acc @ map (placeholder iid) (filter (\<lambda>c. cat_type c \<notin> used \<and> cat_options c \<noteq> []) cats)"
  by (induction cats arbitrary: acc) (auto simp: addUnused_def)

lemma enhanceItem_append:
  "enhanceItem intent entry acc = acc @ snd entry @ synthesized intent (fst entry) (snd entry)"
  by (simp add: enhanceItem_def Let_def synthesized_def fold_addUnused)

lemma fold_enhanceItem:
  "fold (enhanceItem intent) groups acc =
     acc @ concat (map (\<lambda>entry. snd entry @ synthesized intent (fst entry) (snd entry)) groups)"
  by (induction groups arbitrary: acc) (simp_all add: enhanceItem_append)

lemma postProcessResults_segments:
  "postProcessResults rs intent =
     concat (map (\<lambda>entry. snd entry @ synthesized intent (fst entry) (snd entry)) (groupByItem rs))"
  by (simp add: postProcessResults_def fold_enhanceItem)

lemma map_of_None_iff: "map_of acc k = None \<longleftrightarrow> k \<notin> fst ` set acc"
  by (simp add: map_of_eq_None_iff)

lemma groupStep_grouped:
  assumes "grouped acc xs"
  shows "grouped (groupStep r acc) (xs @ [r])"
proof (cases "map_of acc (itemId r) = None")
  case True
  then have new: "itemId r \<notin> fst ` set acc" by (simp add: map_of_None_iff)
  then have nox: "itemId r \<notin> itemId ` set xs" using assms by (simp add: grouped_def)
  have step: "groupStep r acc = acc @ [(itemId r, [r])]" using True by (simp add: groupStep_def)
  have d: "distinct (map fst (acc @ [(itemId r, [r])]))"
    using assms new by (auto simp: grouped_def)
  have old: "snd entry = filter (\<lambda>x. itemId x = fst entry) (xs @ [r]) \<and> snd entry \<noteq> []"
    if "entry \<in> set acc" for entry
  proof -
    have "fst entry \<noteq> itemId r" using that new by (metis image_eqI)
    then show ?thesis using assms that by (auto simp: grouped_def)
  qed
  have nox': "itemId x \<noteq> itemId r" if "x \<in> set xs" for x
    using nox that by (metis image_eqI)
  have fresh: "[r] = filter (\<lambda>x. itemId x = itemId r) (xs @ [r])"
    using nox' by (simp add: filter_empty_conv)
  have keys: "fst ` set (acc @ [(itemId r, [r])]) = itemId ` set (xs @ [r])"
    using assms by (auto simp: grouped_def)
  have all: "\<forall>entry \<in> set (acc @ [(itemId r, [r])]).
               snd entry = filter (\<lambda>x. itemId x = fst entry) (xs @ [r]) \<and> snd entry \<noteq> []"
  proof
    fix entry assume "entry \<in> set (acc @ [(itemId r, [r])])"
    then consider "entry \<in> set acc" | "entry = (itemId r, [r])" by auto
    then show "snd entry = filter (\<lambda>x. itemId x = fst entry) (xs @ [r]) \<and> snd entry \<noteq> []"
    proof cases
      case 1
      then show ?thesis by (rule old)
    next
      case 2
      then show ?thesis using fresh by simp
    qed
  qed
  show ?thesis
    unfolding step grouped_def using d all keys by blast
next
  case False
  then have present: "itemId r \<in> fst ` set acc" by (simp add: map_of_None_iff)
  let ?f = "\<lambda>(k, v). if k = itemId r then (k, v @ [r]) else (k, v)"
  have step: "groupStep r acc = map ?f acc" using False by (simp add: groupStep_def)
  have fstf: "fst (?f entry) = fst entry" for entry by (cases entry) auto
  have keys_same: "map fst (map ?f acc) = map fst acc"
    by (induction acc) (auto split: prod.splits)
  have d: "distinct (map fst (map ?f acc))"
    unfolding keys_same using assms by (simp add: grouped_def)
  have ent: "snd e' = filter (\<lambda>x. itemId x = fst e') (xs @ [r]) \<and> snd e' \<noteq> []"
    if "e' \<in> set (map ?f acc)" for e'
  proof -
    from that obtain entry where e: "entry \<in> set acc" "e' = ?f entry" by auto
    have inv: "snd entry = filter (\<lambda>x. itemId x = fst entry) xs" "snd entry \<noteq> []"
      using assms e(1) by (auto simp: grouped_def)
    show ?thesis using e(2) inv by (cases entry) auto
  qed
  have keys: "fst ` set (map ?f acc) = itemId ` set (xs @ [r])"
  proof -
    have "fst ` set (map ?f acc) = set (map fst (map ?f acc))" by (simp only: set_map)
    also have "\<dots> = set (map fst acc)" unfolding keys_same ..
    also have "\<dots> = fst ` set acc" by simp
    also have "\<dots> = itemId ` set (xs @ [r])" using assms present by (auto simp: grouped_def)
    finally show ?thesis .
  qed
  show ?thesis unfolding step grouped_def using d ent keys by blast
qed

lemma fold_groupStep_grouped:
  "grouped acc xs \<Longrightarrow> grouped (fold groupStep rs acc) (xs @ rs)"
proof (induction rs arbitrary: acc xs)
  case Nil
  then show ?case by simp
next
  case (Cons r rs)
  from Cons.IH[OF groupStep_grouped[OF Cons.prems, of r]] show ?case by simp
qed

lemma groupByItem_grouped: "grouped (groupByItem rs) rs"
proof -
  have "grouped [] []" by (simp add: grouped_def)
  from fold_groupStep_grouped[OF this, of rs] show ?thesis by (simp add: groupByItem_def)
qed















lemma labelType_fallback0: "labelType fallback0 = ''Error''"
  by (simp add: labelType_def fallback0_def batchErrorResult_def trim_def isWhiteSpace_def)

lemma fallback0_itemId: "itemId fallback0 = ''item-0''"
  by (simp add: fallback0_def batchErrorResult_def item0_def)

lemma groupByItem_pair:
  "itemId a = itemId b \<Longrightarrow> groupByItem [a, b] = [(itemId a, [a, b])]"
  by (simp add: groupByItem_def groupStep_def)

lemma categories_two:
  "labelCategories twoCategoryIntent = [sentimentCategory, urgencyCategory]"
  "cat_type sentimentCategory = ''Sentiment''" "cat_type urgencyCategory = ''Urgency''"
  "cat_options urgencyCategory \<noteq> []"
  by (simp_all add: twoCategoryIntent_def sentimentCategory_def urgencyCategory_def)



text \<open>
  Claim C7, as stated, fails.  Two categories are declared; the item carries the labels
  \<^verbatim>\<open>Sentiment: Positive\<close> and \<^verbatim>\<open>Error: Needs Manual Review\<close> (a result and the fallback
  of a chunk that failed after it).  The category \<^verbatim>\<open>Urgency\<close> has options and is absent
  from the represented types, but these are two, not fewer than the two declared
  categories, and no placeholder is synthesized.
\<close>

theorem coverage_enhancer_skips_absent_category:
  "length (labelCategories twoCategoryIntent) = 2 \<and>
   urgencyCategory \<in> set (labelCategories twoCategoryIntent) \<and>
   cat_options urgencyCategory \<noteq> [] \<and>
   groupByItem [positiveResult0, fallback0] = [(''item-0'', [positiveResult0, fallback0])] \<and>
   usedLabelTypes [positiveResult0, fallback0] = {''Sentiment'', ''Error''} \<and>
   cat_type urgencyCategory \<notin> usedLabelTypes [positiveResult0, fallback0] \<and>
   postProcessResults [positiveResult0, fallback0] twoCategoryIntent = [positiveResult0, fallback0]"
proof -
  have g: "groupByItem [positiveResult0, fallback0] = [(''item-0'', [positiveResult0, fallback0])]"
    using groupByItem_pair[of positiveResult0 fallback0] by (simp add: positive_fields fallback0_itemId)
  have u: "usedLabelTypes [positiveResult0, fallback0] = {''Sentiment'', ''Error''}"
    by (simp add: usedLabelTypes_def labelType_positive labelType_fallback0)
  have c: "card {''Sentiment'', ''Error''} = 2" by simp
  have p: "postProcessResults [positiveResult0, fallback0] twoCategoryIntent = [positiveResult0, fallback0]"
    by (simp add: postProcessResults_def g enhanceItem_def u c categories_two)
  show ?thesis using g u p by (simp add: categories_two)
qed

text \<open>
  Claim C7, amended.  The output is, group by group in the order the item ids first occur,
  the item's original results in their original order followed by its placeholders.  An
  item gets placeholders when more than one category is declared and its labels represent
  fewer distinct types than there are declared categories: then one placeholder for each
  declared category, in declaration order, whose type is not represented and which has at
  least one option.  A placeholder carries the item's id, the label
  \<^verbatim>\<open><category type>: <first option name>\<close>, confidence 0, \<open>needsReview\<close> and the flag
  \<open>needsLLMReasoning\<close>.
\<close>

theorem coverage_enhancer_synthesis:
  "postProcessResults rs intent =
     concat (map (\<lambda>entry. snd entry @ synthesized intent (fst entry) (snd entry)) (groupByItem rs)) \<and>
   grouped (groupByItem rs) rs \<and>
   (\<forall>iid category.
      itemId (placeholder iid category) = iid \<and>
      label (placeholder iid category) = cat_type category @ '': '' @ opt_name (hd (cat_options category)) \<and>
      confidence (placeholder iid category) = 0 \<and>
      needsReview (placeholder iid category) \<and>
      needsLLMReasoning (placeholder iid category))"
  using postProcessResults_segments groupByItem_grouped by (simp add: placeholder_def)

theorem coverage_enhancer_synthesis_witness:
  "postProcessResults [positiveResult0] twoCategoryIntent = [positiveResult0, placeholder ''item-0'' urgencyCategory] \<and>
   label (placeholder ''item-0'' urgencyCategory) = ''Urgency: High'' \<and>
   confidence (placeholder ''item-0'' urgencyCategory) = 0 \<and>
   needsReview (placeholder ''item-0'' urgencyCategory) \<and>
   needsLLMReasoning (placeholder ''item-0'' urgencyCategory)"
proof -
  have u: "usedLabelTypes [positiveResult0] = {''Sentiment''}"
    by (simp add: usedLabelTypes_def labelType_positive)
  have s: "synthesized twoCategoryIntent ''item-0'' [positiveResult0] = [placeholder ''item-0'' urgencyCategory]"
    by (simp add: synthesized_def u categories_two)
  have g: "groupByItem [positiveResult0] = [(''item-0'', [positiveResult0])]"
    by (simp add: groupByItem_single positive_fields)
  from coverage_enhancer_synthesis[of "[positiveResult0]" twoCategoryIntent]
  have "postProcessResults [positiveResult0] twoCategoryIntent =
          concat (map (\<lambda>entry. snd entry @ synthesized twoCategoryIntent (fst entry) (snd entry))
                    (groupByItem [positiveResult0]))"
       "label (placeholder ''item-0'' urgencyCategory) =
          cat_type urgencyCategory @ '': '' @ opt_name (hd (cat_options urgencyCategory))"
       "confidence (placeholder ''item-0'' urgencyCategory) = 0"
       "needsReview (placeholder ''item-0'' urgencyCategory)"
       "needsLLMReasoning (placeholder ''item-0'' urgencyCategory)"
    by blast+
  then show ?thesis by (simp add: g s urgencyCategory_def)
qed


subsection \<open>The reasoning backfill\<close>

lemma findIndex_Some: "findIndex P xs = Some i \<Longrightarrow> i < length xs \<and> P (xs ! i)"
proof (induction xs arbitrary: i)
  case Nil
  then show ?case by simp
next
  case (Cons x xs)
  show ?case
  proof (cases "P x")
    case True
    with Cons.prems show ?thesis by simp
  next
    case False
    with Cons.prems obtain j where j: "findIndex P xs = Some j" "i = Suc j" by auto
    from Cons.IH[OF j(1)] j(2) show ?thesis by simp
  qed
qed

lemma map_of_None_keys: "map_of m k = None \<longleftrightarrow> k \<notin> fst ` set m"
  by (simp add: map_of_eq_None_iff)

lemma collectStep_cases:
  obtains (skip) "collectStep data rs r m = m"
  | (add) item i where "find (\<lambda>d. item_id d = itemId r) data = Some item"
      "findIndex (\<lambda>x. itemId x = itemId r \<and> label x = label r) rs = Some i"
      "collectStep data rs r m =
         map (\<lambda>(k, it, ls). if k = itemId r then (k, it, ls @ [(i, label r)]) else (k, it, ls))
           (if map_of m (itemId r) = None then m @ [(itemId r, item, [])] else m)"
  | (noindex) item where "find (\<lambda>d. item_id d = itemId r) data = Some item"
      "findIndex (\<lambda>x. itemId x = itemId r \<and> label x = label r) rs = None"
      "collectStep data rs r m = (if map_of m (itemId r) = None then m @ [(itemId r, item, [])] else m)"
proof (cases "find (\<lambda>d. item_id d = itemId r) data")
  case None
  then have "collectStep data rs r m = m" by (simp add: collectStep_def)
  then show ?thesis by (rule skip)
next
  case found: (Some item)
  show ?thesis
  proof (cases "findIndex (\<lambda>x. itemId x = itemId r \<and> label x = label r) rs")
    case None
    show ?thesis by (rule noindex[OF found None]) (simp add: collectStep_def found None)
  next
    case at: (Some i)
    show ?thesis by (rule add[OF found at]) (simp add: collectStep_def found at Let_def)
  qed
qed

lemma extend_keys:
  "map fst (map (\<lambda>(k, it, ls). if k = key then (k, it, ls @ [x]) else (k, it, ls)) m) = map fst m"
  by (induction m) (auto split: prod.splits)

lemma extend_entry:
  assumes "e' \<in> set (map (\<lambda>(k, it, ls). if k = key then (k, it, ls @ [x]) else (k, it, ls)) m)"
  obtains e where "e \<in> set m" "fst e' = fst e"
    "indices e' = (if fst e = key then insert (fst x) (indices e) else indices e)"
proof -
  from assms obtain e where e: "e \<in> set m"
    "e' = (\<lambda>(k, it, ls). if k = key then (k, it, ls @ [x]) else (k, it, ls)) e" by auto
  obtain k it ls where k: "e = (k, it, ls)" by (cases e)
  have "fst e' = fst e" using e(2) k by simp
  moreover have "indices e' = (if fst e = key then insert (fst x) (indices e) else indices e)"
    using e(2) k by (auto simp: indices_def)
  ultimately show ?thesis using that e(1) by blast
qed

lemma extend_entry_rev:
  assumes "e \<in> set m"
  shows "\<exists>e' \<in> set (map (\<lambda>(k, it, ls). if k = key then (k, it, ls @ [x]) else (k, it, ls)) m).
           fst e' = fst e \<and> indices e' = (if fst e = key then insert (fst x) (indices e) else indices e)"
proof -
  obtain k it ls where k: "e = (k, it, ls)" by (cases e)
  let ?f = "\<lambda>(k, it, ls). if k = key then (k, it, ls @ [x]) else (k, it, ls)"
  have "?f e \<in> set (map ?f m)" using assms by simp
  moreover have "fst (?f e) = fst e" using k by simp
  moreover have "indices (?f e) = (if fst e = key then insert (fst x) (indices e) else indices e)"
    using k by (auto simp: indices_def)
  ultimately show ?thesis by blast
qed

lemma ensure_targets_ok:
  assumes "targets_ok m us"
  shows "targets_ok (if map_of m key = None then m @ [(key, item, [])] else m) us"
proof (cases "map_of m key = None")
  case True
  then have "key \<notin> fst ` set m" by (simp add: map_of_None_keys)
  then show ?thesis using assms True by (auto simp: targets_ok_def indices_def)
next
  case False
  then have "(if map_of m key = None then m @ [(key, item, [])] else m) = m" by (simp only: if_False)
  then show ?thesis using assms by (simp only:)
qed

lemma ensure_has_key:
  "key \<in> fst ` set (if map_of m key = None then m @ [(key, item, [])] else m)"
  by (cases "map_of m key = None") (auto simp: map_of_None_keys)

lemma ensure_keeps:
  "has_target m k i \<Longrightarrow> has_target (if map_of m key = None then m @ [(key, item, [])] else m) k i"
  by (auto simp: has_target_def)

lemma extend_targets_ok:
  assumes "targets_ok m us" "i < length us" "itemId (us ! i) = key"
  shows "targets_ok (map (\<lambda>(k, it, ls). if k = key then (k, it, ls @ [(i, l)]) else (k, it, ls)) m) us"
proof -
  let ?m' = "map (\<lambda>(k, it, ls). if k = key then (k, it, ls @ [(i, l)]) else (k, it, ls)) m"
  have d: "distinct (map fst ?m')" unfolding extend_keys using assms(1) by (simp add: targets_ok_def)
  have t: "\<forall>e' \<in> set ?m'. \<forall>j \<in> indices e'. j < length us \<and> itemId (us ! j) = fst e'"
  proof
    fix e' assume "e' \<in> set ?m'"
    then obtain e where e: "e \<in> set m" "fst e' = fst e"
      "indices e' = (if fst e = key then insert (fst (i, l)) (indices e) else indices e)"
      by (rule extend_entry)
    have old: "\<forall>j \<in> indices e. j < length us \<and> itemId (us ! j) = fst e"
      using assms(1) e(1) by (simp add: targets_ok_def)
    show "\<forall>j \<in> indices e'. j < length us \<and> itemId (us ! j) = fst e'"
    proof (cases "fst e = key")
      case True
      then have "indices e' = insert i (indices e)" using e(3) by simp
      then show ?thesis using e(2) old assms(2,3) True by simp
    next
      case False
      then have "indices e' = indices e" using e(3) by simp
      then show ?thesis using e(2) old by simp
    qed
  qed
  show ?thesis unfolding targets_ok_def using d t by blast
qed

lemma extend_keeps:
  assumes "has_target m k j"
  shows "has_target (map (\<lambda>(k, it, ls). if k = key then (k, it, ls @ [x]) else (k, it, ls)) m) k j"
proof -
  define m' where "m' = map (\<lambda>(k, it, ls). if k = key then (k, it, ls @ [x]) else (k, it, ls)) m"
  from assms obtain e where e: "e \<in> set m" "fst e = k" "j \<in> indices e" by (auto simp: has_target_def)
  from extend_entry_rev[OF e(1), of key x] obtain e' where e':
    "e' \<in> set m'"
    "fst e' = fst e" "indices e' = (if fst e = key then insert (fst x) (indices e) else indices e)"
    unfolding m'_def by blast
  have "j \<in> indices e'" using e'(3) e(3) by (cases "fst e = key") simp_all
  then have "has_target m' k j" unfolding has_target_def using e'(1,2) e(2) by blast
  then show ?thesis unfolding m'_def .
qed

lemma extend_adds:
  assumes "key \<in> fst ` set m"
  shows "has_target (map (\<lambda>(k, it, ls). if k = key then (k, it, ls @ [(i, l)]) else (k, it, ls)) m) key i"
proof -
  define m' where "m' = map (\<lambda>(k, it, ls). if k = key then (k, it, ls @ [(i, l)]) else (k, it, ls)) m"
  from assms obtain e where e: "e \<in> set m" "fst e = key" by auto
  from extend_entry_rev[OF e(1), of key "(i, l)"] obtain e' where e':
    "e' \<in> set m'"
    "fst e' = fst e" "indices e' = (if fst e = key then insert (fst (i, l)) (indices e) else indices e)"
    unfolding m'_def by blast
  have "i \<in> indices e'" using e'(3) e(2) by simp
  then have "has_target m' key i" unfolding has_target_def using e'(1,2) e(2) by blast
  then show ?thesis unfolding m'_def .
qed

lemma collectStep_targets_ok:
  assumes "targets_ok m rs"
  shows "targets_ok (collectStep data rs r m) rs"
proof (cases rule: collectStep_cases[of data rs r m])
  case skip
  then show ?thesis using assms by simp
next
  case (add item i)
  from findIndex_Some[OF add(2)] have i: "i < length rs" "itemId (rs ! i) = itemId r" by auto
  show ?thesis unfolding add(3)
    by (rule extend_targets_ok[OF ensure_targets_ok[OF assms] i])
next
  case (noindex item)
  show ?thesis unfolding noindex(3) by (rule ensure_targets_ok[OF assms])
qed

lemma collectStep_keeps:
  assumes "has_target m k i"
  shows "has_target (collectStep data rs r m) k i"
proof (cases rule: collectStep_cases[of data rs r m])
  case skip
  then show ?thesis using assms by simp
next
  case (add item j)
  show ?thesis unfolding add(3) by (rule extend_keeps[OF ensure_keeps[OF assms]])
next
  case (noindex item)
  show ?thesis unfolding noindex(3) by (rule ensure_keeps[OF assms])
qed

lemma collectStep_adds:
  assumes "find (\<lambda>d. item_id d = itemId r) data = Some item"
    and "findIndex (\<lambda>x. itemId x = itemId r \<and> label x = label r) rs = Some i"
  shows "has_target (collectStep data rs r m) (itemId r) i"
proof -
  have "collectStep data rs r m =
         map (\<lambda>(k, it, ls). if k = itemId r then (k, it, ls @ [(i, label r)]) else (k, it, ls))
           (if map_of m (itemId r) = None then m @ [(itemId r, item, [])] else m)"
    by (simp add: collectStep_def assms Let_def)
  then show ?thesis
    using extend_adds[where i = i and l = "label r", OF ensure_has_key[of "itemId r" m item]]
    by (simp only:)
qed

lemma fold_collect_targets_ok:
  "targets_ok m rs \<Longrightarrow> targets_ok (fold (collectStep data rs) fs m) rs"
  by (induction fs arbitrary: m) (simp_all add: collectStep_targets_ok)

lemma fold_collect_keeps:
  "has_target m k i \<Longrightarrow> has_target (fold (collectStep data rs) fs m) k i"
  by (induction fs arbitrary: m) (simp_all add: collectStep_keeps)

lemma fold_collect_adds:
  assumes "r \<in> set fs"
    and "find (\<lambda>d. item_id d = itemId r) data = Some item"
    and "findIndex (\<lambda>x. itemId x = itemId r \<and> label x = label r) rs = Some i"
  shows "has_target (fold (collectStep data rs) fs m) (itemId r) i"
  using assms(1)
proof (induction fs arbitrary: m)
  case Nil
  then show ?case by simp
next
  case (Cons f fs)
  show ?case
  proof (cases "f = r")
    case True
    have "has_target (collectStep data rs r m) (itemId r) i" by (rule collectStep_adds[OF assms(2,3)])
    then show ?thesis using True fold_collect_keeps by simp
  next
    case False
    then have "r \<in> set fs" using Cons.prems by simp
    from Cons.IH[OF this] show ?thesis by simp
  qed
qed

lemma backfillItems_Cons:
  "backfillItems roundTrip k (entry # rest) us =
     backfillItems roundTrip (Suc k) rest (backfillStep roundTrip k entry us)"
  by (simp add: backfillStep_def)

lemma applyFallback_idem: "applyFallback (applyFallback x) = applyFallback x"
  by (simp add: applyFallback_def)

lemma applyFallback_keeps: "itemId (applyFallback x) = itemId x" "label (applyFallback x) = label x"
  by (simp_all add: applyFallback_def)

lemma applyReasoning_keeps: "itemId (applyReasoning d x) = itemId x" "label (applyReasoning d x) = label x"
  by (simp_all add: applyReasoning_def Let_def split: reasoning_entry.splits prod.splits)

lemma fold_fallback_length: "length (fold fallbackStep ls us) = length us"
  by (induction ls arbitrary: us) (simp_all add: fallbackStep_def)

lemma fold_success_length: "length (fold (successStep j) ls us) = length us"
  by (induction ls arbitrary: us) (simp_all add: successStep_def split: option.splits)

lemma fold_fallback_nth:
  "i < length us \<Longrightarrow>
   fold fallbackStep ls us ! i = (if i \<in> fst ` set ls then applyFallback (us ! i) else us ! i)"
proof (induction ls arbitrary: us)
  case Nil
  show ?case by simp
next
  case (Cons l ls)
  let ?us1 = "fallbackStep l us"
  have len: "i < length ?us1" using Cons.prems by (simp add: fallbackStep_def)
  have ih: "fold fallbackStep ls ?us1 ! i = (if i \<in> fst ` set ls then applyFallback (?us1 ! i) else ?us1 ! i)"
    by (rule Cons.IH[OF len])
  show ?case
  proof (cases "fst l = i")
    case True
    then have "?us1 ! i = applyFallback (us ! i)" using Cons.prems by (simp add: fallbackStep_def)
    then show ?thesis using ih True by (simp add: applyFallback_idem)
  next
    case False
    then have "?us1 ! i = us ! i" by (simp add: fallbackStep_def)
    then show ?thesis using ih False by auto
  qed
qed

lemma fold_fallback_itemId:
  "i < length us \<Longrightarrow> itemId (fold fallbackStep ls us ! i) = itemId (us ! i)"
  by (simp add: fold_fallback_nth applyFallback_keeps)

lemma successStep_nth_other: "i \<noteq> fst l \<Longrightarrow> successStep j l us ! i = us ! i"
  by (simp add: successStep_def split: option.splits)

lemma successStep_itemId: "i < length us \<Longrightarrow> itemId (successStep j l us ! i) = itemId (us ! i)"
  by (cases "i = fst l") (simp_all add: successStep_def applyReasoning_keeps split: option.splits)

lemma successStep_length: "length (successStep j l us) = length us"
  by (simp add: successStep_def split: option.splits)

lemma fold_success_other:
  "i \<notin> fst ` set ls \<Longrightarrow> fold (successStep j) ls us ! i = us ! i"
  by (induction ls arbitrary: us) (simp_all add: successStep_nth_other)

lemma fold_success_itemId:
  "i < length us \<Longrightarrow> itemId (fold (successStep j) ls us ! i) = itemId (us ! i)"
proof (induction ls arbitrary: us)
  case Nil
  show ?case by simp
next
  case (Cons l ls)
  have "i < length (successStep j l us)" using Cons.prems by (simp add: successStep_length)
  from Cons.IH[OF this] show ?case using successStep_itemId[OF Cons.prems] by simp
qed

lemma backfillStep_length: "length (backfillStep roundTrip k entry us) = length us"
  by (simp add: backfillStep_def fold_fallback_length fold_success_length split: backfill_outcome.splits)

lemma backfillStep_itemId:
  "i < length us \<Longrightarrow> itemId (backfillStep roundTrip k entry us ! i) = itemId (us ! i)"
  by (simp add: backfillStep_def fold_fallback_itemId fold_success_itemId split: backfill_outcome.splits)

lemma backfillStep_other:
  "i < length us \<Longrightarrow> i \<notin> indices entry \<Longrightarrow> backfillStep roundTrip k entry us ! i = us ! i"
  by (simp add: backfillStep_def indices_def fold_fallback_nth fold_success_other split: backfill_outcome.splits)

lemma backfillStep_failure:
  assumes "\<forall>j. roundTrip k \<noteq> ReasoningJson j" "i < length us" "i \<in> indices entry"
  shows "backfillStep roundTrip k entry us ! i = applyFallback (us ! i)"
  using assms
  by (cases "roundTrip k") (simp_all add: backfillStep_def indices_def fold_fallback_nth)

lemma backfillStep_targets_ok:
  assumes "targets_ok m us"
  shows "targets_ok m (backfillStep roundTrip k entry us)"
  using assms unfolding targets_ok_def
  by (simp add: backfillStep_length backfillStep_itemId)

lemma backfillItems_untouched:
  assumes "i < length us" "\<forall>entry \<in> set m. i \<notin> indices entry"
  shows "backfillItems roundTrip k m us ! i = us ! i"
  using assms
proof (induction m arbitrary: k us)
  case Nil
  show ?case by simp
next
  case (Cons e m)
  have len: "i < length (backfillStep roundTrip k e us)" using Cons.prems(1) by (simp add: backfillStep_length)
  have "backfillItems roundTrip (Suc k) m (backfillStep roundTrip k e us) ! i = backfillStep roundTrip k e us ! i"
    by (rule Cons.IH[OF len]) (use Cons.prems(2) in simp)
  also have "\<dots> = us ! i" by (rule backfillStep_other) (use Cons.prems in simp_all)
  finally show ?case by (simp only: backfillItems_Cons)
qed

lemma other_entry_misses:
  assumes "targets_ok m us" "e \<in> set m" "fst e \<noteq> itemId (us ! i)"
  shows "i \<notin> indices e"
proof
  assume "i \<in> indices e"
  moreover have "\<forall>j \<in> indices e. itemId (us ! j) = fst e"
    using assms(1,2) by (simp add: targets_ok_def)
  ultimately have "itemId (us ! i) = fst e" by simp
  then show False using assms(3) by simp
qed

lemma distinct_head_key:
  assumes "distinct (map fst (e # m))" "entry \<in> set m"
  shows "fst entry \<noteq> fst e"
proof
  assume "fst entry = fst e"
  then have "fst e \<in> fst ` set m" using assms(2) by (metis image_eqI)
  then show False using assms(1) by simp
qed

lemma backfillItems_failure:
  assumes "targets_ok m us" "p < length m" "i \<in> indices (m ! p)"
    and "\<forall>j. roundTrip (k + p) \<noteq> ReasoningJson j"
  shows "backfillItems roundTrip k m us ! i = applyFallback (us ! i)"
  using assms
proof (induction m arbitrary: k us p)
  case Nil
  then show ?case by simp
next
  case (Cons e m)
  have d: "distinct (map fst (e # m))" using Cons.prems(1) by (simp add: targets_ok_def)
  have inrange: "i < length us" "itemId (us ! i) = fst ((e # m) ! p)"
    using Cons.prems(1,2,3) unfolding targets_ok_def by (metis nth_mem)+
  let ?us1 = "backfillStep roundTrip k e us"
  have ok_m: "targets_ok m us" using Cons.prems(1) by (simp add: targets_ok_def)
  show ?case
  proof (cases p)
    case 0
    have here: "?us1 ! i = applyFallback (us ! i)"
      by (rule backfillStep_failure) (use Cons.prems(3,4) inrange(1) 0 in simp_all)
    have miss: "\<forall>entry \<in> set m. i \<notin> indices entry"
    proof
      fix entry assume en: "entry \<in> set m"
      then have "fst entry \<noteq> fst e" by (rule distinct_head_key[OF d])
      then have "fst entry \<noteq> itemId (us ! i)" using inrange(2) 0 by simp
      then show "i \<notin> indices entry" by (rule other_entry_misses[OF ok_m en])
    qed
    have "backfillItems roundTrip (Suc k) m ?us1 ! i = ?us1 ! i"
      by (rule backfillItems_untouched) (use inrange(1) miss in \<open>simp_all add: backfillStep_length\<close>)
    then show ?thesis using here by (simp only: backfillItems_Cons)
  next
    case (Suc p')
    have p': "p' < length m" "i \<in> indices (m ! p')" using Cons.prems(2,3) Suc by simp_all
    have "m ! p' \<in> set m" using p'(1) by simp
    then have "fst e \<noteq> fst (m ! p')" using distinct_head_key[OF d] by metis
    then have "fst e \<noteq> itemId (us ! i)" using inrange(2) Suc by simp
    moreover have "e \<in> set (e # m)" by simp
    ultimately have "i \<notin> indices e"
      using other_entry_misses[OF Cons.prems(1)] by blast
    then have same: "?us1 ! i = us ! i" by (rule backfillStep_other[OF inrange(1)])
    have ok1: "targets_ok m ?us1" by (rule backfillStep_targets_ok[OF ok_m])
    have rt: "\<forall>j. roundTrip (Suc k + p') \<noteq> ReasoningJson j" using Cons.prems(4) Suc by simp
    from Cons.IH[OF ok1 p' rt] same show ?thesis by (simp only: backfillItems_Cons)
  qed
qed

lemma applyFallback_fields:
  "reasoning (applyFallback x) = fallbackReasoning"
  "confidence (applyFallback x) = max 60 (confidence x)"
  "needsReview (applyFallback x)" "\<not> needsLLMReasoning (applyFallback x)"
  "itemId (applyFallback x) = itemId x" "label (applyFallback x) = label x"
  by (simp_all add: applyFallback_def fallbackReasoning_def)

lemma postProcess_duplicate:
  "postProcessResults [positiveResult0] duplicateIntent = [positiveResult0, urgencyPlaceholder, urgencyPlaceholder]"
proof -
  have used: "usedLabelTypes [positiveResult0] = {''Sentiment''}"
    by (simp add: usedLabelTypes_def labelType_positive)
  show ?thesis
    by (simp add: postProcessResults_def groupByItem_single enhanceItem_def used positive_fields
        duplicateIntent_def addUnused_def urgencyCategory_def urgencyPlaceholder_def Let_def)
qed

lemma itemsToProcess_duplicate:
  "itemsToProcess [positiveResult0, urgencyPlaceholder, urgencyPlaceholder] [item0]
     = [(''item-0'', item0, [(1, ''Urgency: High''), (1, ''Urgency: High'')])]"
  by (simp add: itemsToProcess_def positive_fields urgencyPlaceholder_fields collectStep_def item0_def)

text \<open>
  What the failure branch does where the lookup is right: a flagged result that is the
  first one of the list with its item id and label, and whose item is among the data,
  belongs to exactly one round trip; when that round trip fails, the result gets the
  generic fallback reasoning, the confidence \<open>max 60 previous\<close>, \<open>needsReview\<close> set and
  the flag cleared, and keeps its item id and label.
\<close>

lemma backfill_failure_fallback:
  assumes "i < length rs" and "needsLLMReasoning (rs ! i)"
    and "findIndex (\<lambda>r. itemId r = itemId (rs ! i) \<and> label r = label (rs ! i)) rs = Some i"
    and "find (\<lambda>d. item_id d = itemId (rs ! i)) data = Some item"
  shows "\<exists>p < length (itemsToProcess rs data).
           fst (itemsToProcess rs data ! p) = itemId (rs ! i) \<and>
           ((\<forall>j. roundTrip p \<noteq> ReasoningJson j) \<longrightarrow>
              generateReasoningForLabels rs intent data roundTrip ! i = applyFallback (rs ! i) \<and>
              reasoning (generateReasoningForLabels rs intent data roundTrip ! i) = fallbackReasoning \<and>
              confidence (generateReasoningForLabels rs intent data roundTrip ! i) = max 60 (confidence (rs ! i)) \<and>
              needsReview (generateReasoningForLabels rs intent data roundTrip ! i) \<and>
              \<not> needsLLMReasoning (generateReasoningForLabels rs intent data roundTrip ! i) \<and>
              itemId (generateReasoningForLabels rs intent data roundTrip ! i) = itemId (rs ! i) \<and>
              label (generateReasoningForLabels rs intent data roundTrip ! i) = label (rs ! i))"
proof -
  let ?m = "itemsToProcess rs data"
  have flagged: "rs ! i \<in> set (filter needsLLMReasoning rs)" using assms(1,2) by simp
  have ok: "targets_ok ?m rs"
    unfolding itemsToProcess_def by (rule fold_collect_targets_ok) (simp add: targets_ok_def)
  have "has_target ?m (itemId (rs ! i)) i"
    unfolding itemsToProcess_def by (rule fold_collect_adds[OF flagged assms(4,3)])
  then obtain entry where entry: "entry \<in> set ?m" "fst entry = itemId (rs ! i)" "i \<in> indices entry"
    by (auto simp: has_target_def)
  then obtain p where p: "p < length ?m" "?m ! p = entry" by (auto simp: in_set_conv_nth)
  have nonempty: "length (filter needsLLMReasoning rs) \<noteq> 0"
    using flagged by (metis length_0_conv empty_iff empty_set)
  have gen: "generateReasoningForLabels rs intent data roundTrip = backfillItems roundTrip 0 ?m rs"
    using nonempty by (simp add: generateReasoningForLabels_def)
  have main: "generateReasoningForLabels rs intent data roundTrip ! i = applyFallback (rs ! i)"
    if "\<forall>j. roundTrip p \<noteq> ReasoningJson j"
    unfolding gen
    by (rule backfillItems_failure[OF ok p(1)]) (use p(2) entry(3) that in simp_all)
  show ?thesis
    using p entry(2) main applyFallback_fields by (intro exI[of _ p]) simp
qed

lemma backfill_failure_fallback_single_placeholder:
  "findIndex (\<lambda>r. itemId r = itemId ([positiveResult0, urgencyPlaceholder] ! 1) \<and>
                   label r = label ([positiveResult0, urgencyPlaceholder] ! 1))
     [positiveResult0, urgencyPlaceholder] = Some 1 \<and>
   needsLLMReasoning ([positiveResult0, urgencyPlaceholder] ! 1) \<and>
   generateReasoningForLabels [positiveResult0, urgencyPlaceholder] twoCategoryIntent [item0] failingBackfill ! 1
     = applyFallback urgencyPlaceholder \<and>
   confidence (generateReasoningForLabels [positiveResult0, urgencyPlaceholder] twoCategoryIntent [item0]
                 failingBackfill ! 1) = 60 \<and>
   needsReview (generateReasoningForLabels [positiveResult0, urgencyPlaceholder] twoCategoryIntent [item0]
                 failingBackfill ! 1) \<and>
   \<not> needsLLMReasoning (generateReasoningForLabels [positiveResult0, urgencyPlaceholder] twoCategoryIntent [item0]
                 failingBackfill ! 1)"
proof -
  let ?rs = "[positiveResult0, urgencyPlaceholder]"
  have a: "1 < length ?rs" by simp
  have b: "needsLLMReasoning (?rs ! 1)" by (simp add: urgencyPlaceholder_fields)
  have c: "findIndex (\<lambda>r. itemId r = itemId (?rs ! 1) \<and> label r = label (?rs ! 1)) ?rs = Some 1"
    by (simp add: urgencyPlaceholder_fields positive_fields)
  have d: "find (\<lambda>d. item_id d = itemId (?rs ! 1)) [item0] = Some item0"
    by (simp add: urgencyPlaceholder_fields item0_def)
  have fails: "\<forall>p. \<forall>j. failingBackfill p \<noteq> ReasoningJson j" by (simp add: failingBackfill_def)
  from backfill_failure_fallback[OF a b c d, of failingBackfill twoCategoryIntent] fails
  have "generateReasoningForLabels ?rs twoCategoryIntent [item0] failingBackfill ! 1 = applyFallback (?rs ! 1)"
       "confidence (generateReasoningForLabels ?rs twoCategoryIntent [item0] failingBackfill ! 1)
          = max 60 (confidence (?rs ! 1))"
       "needsReview (generateReasoningForLabels ?rs twoCategoryIntent [item0] failingBackfill ! 1)"
       "\<not> needsLLMReasoning (generateReasoningForLabels ?rs twoCategoryIntent [item0] failingBackfill ! 1)"
    by blast+
  then show ?thesis using b c by (simp add: urgencyPlaceholder_fields)
qed

text \<open>
  Claim C8.  The failure branch loops over the labels collected for the item and means to
  give every flagged one the fallback, but each label was located by \<^verbatim>\<open>findIndex\<close> on
  item id and label (\<^verbatim>\<open>// Find the index in the original array\<close>), which gives the
  position of the first result with that pair.  With a category declared twice the
  enhancer gives the item two identical placeholders; both are located at the first one,
  so after the failed round trip the second placeholder still carries the flag, its
  confidence 0 and its placeholder reasoning.
\<close>

theorem backfill_failure_leaves_duplicate_flagged:
  "postProcessResults [positiveResult0] duplicateIntent
     = [positiveResult0, urgencyPlaceholder, urgencyPlaceholder] \<and>
   failingBackfill 0 = RoundTripThrows (Error ''Failed to fetch'') \<and>
   generateReasoningForLabels [positiveResult0, urgencyPlaceholder, urgencyPlaceholder]
       duplicateIntent [item0] failingBackfill
     = [positiveResult0, applyFallback urgencyPlaceholder, urgencyPlaceholder] \<and>
   itemId urgencyPlaceholder = ''item-0'' \<and>
   needsLLMReasoning urgencyPlaceholder \<and>
   confidence urgencyPlaceholder = 0"
proof -
  have "generateReasoningForLabels [positiveResult0, urgencyPlaceholder, urgencyPlaceholder]
       duplicateIntent [item0] failingBackfill
     = [positiveResult0, applyFallback urgencyPlaceholder, urgencyPlaceholder]"
    by (simp add: generateReasoningForLabels_def positive_fields urgencyPlaceholder_fields
        itemsToProcess_duplicate failingBackfill_def fallbackStep_def applyFallback_idem)
  then show ?thesis
    using postProcess_duplicate urgencyPlaceholder_fields by (simp add: failingBackfill_def)
qed


section \<open>Properties of the session store\<close>

lemma completeSession_missing:
  assumes "getSession st sessionId = None"
  shows "completeSession now sessionId st = (None, st)"
  using assms by (simp add: completeSession_def)

lemma completeSession_existing:
  assumes "getSession st sessionId = Some session"
  shows "completeSession now sessionId st =
           (Some (session \<lparr> session_status := completed, session_updatedAt := now \<rparr>),
            st \<lparr> sessionRecords := (sessionRecords st)(session_id session \<mapsto>
                                     session \<lparr> session_status := completed, session_updatedAt := now \<rparr>),
                 sessionsIndex := Some (map (\<lambda>m. if meta_id m = sessionId
                                                    then m \<lparr> meta_updatedAt := now, meta_status := Some completed \<rparr>
                                                    else m) (getSessions st)) \<rparr>)"
  using assms
  by (simp add: completeSession_def Let_def saveSession_def updateSessionMetadata_def saveSessions_def
      getSessions_def applyUpdates_def)

text \<open>
  Claim C10.  For a session stored under its id, \<open>completeSession\<close> returns the record
  with \<open>status\<close> set to \<^verbatim>\<open>completed\<close> and \<open>updatedAt\<close> set to the current time, which
  is also the record now stored; its id, name, creation time, data, intent and results are
  those of the old record, and the records of other ids are untouched.  In the index the
  entries with this id get the new \<open>updatedAt\<close> and the status \<^verbatim>\<open>completed\<close>, every
  other entry and every id, name and creation time stays as it was.  For an id with no
  stored record it returns \<^verbatim>\<open>null\<close> and the storage is unchanged.
\<close>

theorem completeSession_frame:
  "(getSession st sessionId = Some session \<and> session_id session = sessionId \<longrightarrow>
      (\<exists>updated st'.
         completeSession now sessionId st = (Some updated, st') \<and>
         getSession st' sessionId = Some updated \<and>
         updated = session \<lparr> session_status := completed, session_updatedAt := now \<rparr> \<and>
         session_id updated = session_id session \<and> session_name updated = session_name session \<and>
         session_createdAt updated = session_createdAt session \<and>
         session_data updated = session_data session \<and>
         session_intent updated = session_intent session \<and>
         session_results updated = session_results session \<and>
         (\<forall>other. other \<noteq> sessionId \<longrightarrow> getSession st' other = getSession st other) \<and>
         getSessions st' =
           map (\<lambda>m. if meta_id m = sessionId
                     then m \<lparr> meta_updatedAt := now, meta_status := Some completed \<rparr> else m)
               (getSessions st) \<and>
         map meta_id (getSessions st') = map meta_id (getSessions st) \<and>
         map meta_name (getSessions st') = map meta_name (getSessions st) \<and>
         map meta_createdAt (getSessions st') = map meta_createdAt (getSessions st))) \<and>
   (getSession st sessionId = None \<longrightarrow> completeSession now sessionId st = (None, st))"
proof (intro conjI impI)
  assume a: "getSession st sessionId = Some session \<and> session_id session = sessionId"
  let ?u = "session \<lparr> session_status := completed, session_updatedAt := now \<rparr>"
  let ?f = "\<lambda>m. if meta_id m = sessionId
                then m \<lparr> meta_updatedAt := now, meta_status := Some completed \<rparr> else m"
  let ?st' = "st \<lparr> sessionRecords := (sessionRecords st)(session_id session \<mapsto> ?u),
                   sessionsIndex := Some (map ?f (getSessions st)) \<rparr>"
  have c: "completeSession now sessionId st = (Some ?u, ?st')"
    using a completeSession_existing[of st sessionId session now] by simp
  have g: "getSession ?st' sessionId = Some ?u" using a by (simp add: getSession_def)
  have o: "\<forall>other. other \<noteq> sessionId \<longrightarrow> getSession ?st' other = getSession st other"
    using a by (simp add: getSession_def)
  have i: "getSessions ?st' = map ?f (getSessions st)" by (simp add: getSessions_def)
  have m1: "map meta_id (map ?f (getSessions st)) = map meta_id (getSessions st)"
    by (induction "getSessions st") auto
  have m2: "map meta_name (map ?f (getSessions st)) = map meta_name (getSessions st)"
    by (induction "getSessions st") auto
  have m3: "map meta_createdAt (map ?f (getSessions st)) = map meta_createdAt (getSessions st)"
    by (induction "getSessions st") auto
  show "\<exists>updated st'.
         completeSession now sessionId st = (Some updated, st') \<and>
         getSession st' sessionId = Some updated \<and>
         updated = session \<lparr> session_status := completed, session_updatedAt := now \<rparr> \<and>
         session_id updated = session_id session \<and> session_name updated = session_name session \<and>
         session_createdAt updated = session_createdAt session \<and>
         session_data updated = session_data session \<and>
         session_intent updated = session_intent session \<and>
         session_results updated = session_results session \<and>
         (\<forall>other. other \<noteq> sessionId \<longrightarrow> getSession st' other = getSession st other) \<and>
         getSessions st' = map ?f (getSessions st) \<and>
         map meta_id (getSessions st') = map meta_id (getSessions st) \<and>
         map meta_name (getSessions st') = map meta_name (getSessions st) \<and>
         map meta_createdAt (getSessions st') = map meta_createdAt (getSessions st)"
    apply (rule exI[of _ ?u], rule exI[of _ ?st'])
    using c g o i m1 m2 m3 by simp
next
  assume "getSession st sessionId = None"
  then show "completeSession now sessionId st = (None, st)" by (rule completeSession_missing)
qed

theorem completeSession_frame_witness:
  "getSession oneSessionStore ''session-1700000000000'' = Some storedSession \<and>
   session_id storedSession = ''session-1700000000000'' \<and>
   (\<exists>updated st'.
      completeSession ''2025-01-02T09:00:00.000Z'' ''session-1700000000000'' oneSessionStore = (Some updated, st') \<and>
      getSession st' ''session-1700000000000'' = Some updated \<and>
      updated = storedSession \<lparr> session_status := completed,
                                session_updatedAt := ''2025-01-02T09:00:00.000Z'' \<rparr> \<and>
      session_results updated = session_results storedSession \<and>
      map meta_id (getSessions st') = map meta_id (getSessions oneSessionStore)) \<and>
   getSession oneSessionStore ''session-42'' = None \<and>
   completeSession ''2025-01-02T09:00:00.000Z'' ''session-42'' oneSessionStore = (None, oneSessionStore)"
proof -
  have g: "getSession oneSessionStore ''session-1700000000000'' = Some storedSession"
    by (simp add: getSession_def oneSessionStore_def)
  have i: "session_id storedSession = ''session-1700000000000''"
    by (simp add: storedSession_def)
  have n: "getSession oneSessionStore ''session-42'' = None"
    by (simp add: getSession_def oneSessionStore_def)
  show ?thesis
    using completeSession_frame[of oneSessionStore "''session-1700000000000''" storedSession
            "''2025-01-02T09:00:00.000Z''"]
          completeSession_frame[of oneSessionStore "''session-42''" storedSession
            "''2025-01-02T09:00:00.000Z''"]
          g i n
    by blast
qed

end
